theory Spec2Isabelle
  imports Complex_Main "HOL-Library.AList" "HOL-Library.Char_ord" "HOL-Library.List_Lexorder"
begin

section \<open>The progress manager of docs/assets/js/progress.js\<close>

text \<open>
  The script keeps, for every page of the site, the list of words the reader has marked
  as learned. The class \<open>ProgressManager\<close> holds the document \<open>this.progress\<close>, paints the
  \<open>learned\<close> class on the table cells \<open>td.word\<close>, writes the document to IndexedDB after
  every click and shows a progress bar. This theory embeds the methods of that class as
  functions over an explicit state and proves what the design document says about them.
\<close>

subsection \<open>JavaScript values\<close>

text \<open>
  What \<open>JSON.parse\<close> and an IndexedDB read can hand to the script: a tree of values. An
  object is the list of its own properties in insertion order; a number is the rational
  value of a finite double. Every array and object of a tree is an object of its own
  (no sharing inside a value). \<open>JBuiltin k\<close> is what a property read finds under the key
  \<open>k\<close> when no own property has that name and \<open>Object.prototype\<close> has a member of that
  name: a function of the platform, or \<open>Object.prototype\<close> itself for \<open>__proto__\<close>.
\<close>

datatype jsval =
    JUndefined
  | JNull
  | JBool bool
  | JNum rat
  | JStr string
  | JArr "jsval list"
  | JObj "(string \<times> jsval) list"
  | JBuiltin string

definition object_prototype_members :: "string list" where
  "object_prototype_members =
     [''constructor'', ''__defineGetter__'', ''__defineSetter__'', ''hasOwnProperty'',
      ''__lookupGetter__'', ''__lookupSetter__'', ''isPrototypeOf'', ''propertyIsEnumerable'',
      ''toString'', ''valueOf'', ''__proto__'', ''toLocaleString'']"

datatype js_error = TypeError | SyntaxError | DOMException | OutsideModel

text \<open>
  \<open>TypeError\<close>, \<open>SyntaxError\<close> and \<open>DOMException\<close> are the exceptions of the platform.
  \<open>OutsideModel\<close> is no exception of JavaScript: it marks the places where the script
  would go on with a value this datatype cannot hold (an array that carries a named
  property, an object whose prototype has been replaced, the default sort order of
  values that are not strings).
\<close>

datatype completion = Normal | Throw js_error

text \<open>ToBoolean, as the conditions \<open>x ? a : b\<close>, \<open>x && y\<close>, \<open>x || y\<close> and \<open>if (x)\<close> apply it.\<close>

fun truthy :: "jsval \<Rightarrow> bool" where
  "truthy JUndefined = False"
| "truthy JNull = False"
| "truthy (JBool b) = b"
| "truthy (JNum n) = (n \<noteq> 0)"
| "truthy (JStr s) = (s \<noteq> [])"
| "truthy (JArr xs) = True"
| "truthy (JObj kvs) = True"
| "truthy (JBuiltin k) = True"

text \<open>
  \<open>typeof v === 'object'\<close>: true of objects, of arrays and of \<open>null\<close>; the type of a
  function is \<open>'function'\<close>.
\<close>

fun typeof_object :: "jsval \<Rightarrow> bool" where
  "typeof_object JNull = True"
| "typeof_object (JArr xs) = True"
| "typeof_object (JObj kvs) = True"
| "typeof_object (JBuiltin k) = (k = ''__proto__'')"
| "typeof_object v = False"

text \<open>
  The property read \<open>v[k]\<close>. Reading a property of \<open>undefined\<close> or \<open>null\<close> throws. A plain
  object answers with its own property; without one the read goes to \<open>Object.prototype\<close>
  and finds a member of it or \<open>undefined\<close>. Arrays, strings, numbers, booleans and
  functions have no own property under the keys used here (\<open>pages\<close> and a page
  identifier, taken not to name an array index, \<open>length\<close> or a member of the prototypes
  of arrays, strings, numbers, booleans and functions), so their reads end at
  \<open>Object.prototype\<close> as well.
\<close>

definition inherited :: "string \<Rightarrow> jsval" where
  "inherited k = (if k \<in> set object_prototype_members then JBuiltin k else JUndefined)"

fun js_get :: "jsval \<Rightarrow> string \<Rightarrow> js_error + jsval" where
  "js_get JUndefined k = Inl TypeError"
| "js_get JNull k = Inl TypeError"
| "js_get (JObj kvs) k = Inr (case map_of kvs k of None \<Rightarrow> inherited k | Some v \<Rightarrow> v)"
| "js_get v k = Inr (inherited k)"

text \<open>
  The assignment \<open>v[k] = x\<close> in strict mode (a class body is strict code): it throws on
  \<open>undefined\<close>, \<open>null\<close> and on a primitive value, and on a plain object it replaces the
  own property in place or appends it. The one key that is not stored as a property is
  \<open>__proto__\<close> on an object that has no own property of that name: the assignment then
  reaches the setter of \<open>Object.prototype\<close> and replaces the prototype of the object.
\<close>

fun js_set :: "jsval \<Rightarrow> string \<Rightarrow> jsval \<Rightarrow> js_error + jsval" where
  "js_set (JObj kvs) k x =
     (if k = ''__proto__'' \<and> map_of kvs k = None then Inl OutsideModel
      else Inr (JObj (AList.update k x kvs)))"
| "js_set (JArr xs) k x = Inl OutsideModel"
| "js_set (JBuiltin n) k x = Inl OutsideModel"
| "js_set v k x = Inl TypeError"

subsection \<open>Sets and sorting\<close>

text \<open>
  A \<open>Set\<close> is the list of its members in insertion order. Membership is SameValueZero:
  primitive values are compared by value, an array or an object is equal to itself
  only, and the members of a parsed tree are objects of their own. A member of
  \<open>Object.prototype\<close> is one object wherever it is read.
\<close>

fun is_primitive :: "jsval \<Rightarrow> bool" where
  "is_primitive (JArr xs) = False"
| "is_primitive (JObj kvs) = False"
| "is_primitive (JBuiltin k) = False"
| "is_primitive v = True"

fun is_builtin :: "jsval \<Rightarrow> bool" where
  "is_builtin (JBuiltin k) = True"
| "is_builtin v = False"

definition same_value_zero :: "jsval \<Rightarrow> jsval \<Rightarrow> bool" where
  "same_value_zero a b = ((is_primitive a \<or> is_builtin a) \<and> a = b)"

definition set_has :: "jsval list \<Rightarrow> jsval \<Rightarrow> bool" where
  "set_has s x = list_ex (\<lambda>y. same_value_zero y x) s"

definition set_add :: "jsval \<Rightarrow> jsval list \<Rightarrow> jsval list" where
  "set_add x s = (if set_has s x then s else s @ [x])"

definition set_delete :: "jsval \<Rightarrow> jsval list \<Rightarrow> jsval list" where
  "set_delete x s = filter (\<lambda>y. \<not> same_value_zero y x) s"

text \<open>
  \<open>new Set(v)\<close> adds what the iterator of \<open>v\<close> yields: the elements of an array, the
  characters of a string. A boolean, a number, a plain object or a function is not
  iterable.
\<close>

fun js_new_set :: "jsval \<Rightarrow> js_error + jsval list" where
  "js_new_set (JArr xs) = Inr (fold set_add xs [])"
| "js_new_set (JStr s) = Inr (fold set_add (map (\<lambda>c. JStr [c]) s) [])"
| "js_new_set JUndefined = Inr []"
| "js_new_set JNull = Inr []"
| "js_new_set v = Inl TypeError"

text \<open>
  \<open>xs.sort()\<close> with no comparator orders the elements by their string values, code unit
  by code unit, a proper prefix first. The model sorts arrays of strings.
\<close>

fun js_string :: "jsval \<Rightarrow> string option" where
  "js_string (JStr s) = Some s"
| "js_string v = None"

fun is_string :: "jsval \<Rightarrow> bool" where
  "is_string (JStr s) = True"
| "is_string v = False"

definition js_sort :: "jsval list \<Rightarrow> js_error + jsval list" where
  "js_sort xs =
     (if list_all is_string xs
      then Inr (map JStr (sort (map (\<lambda>x. the (js_string x)) xs)))
      else Inl OutsideModel)"

text \<open>\<open>s.trim()\<close> removes white space at both ends.\<close>

definition js_whitespace :: "char \<Rightarrow> bool" where
  "js_whitespace c = (c \<in> set [CHR 0x09, CHR 0x0A, CHR 0x0B, CHR 0x0C, CHR 0x0D, CHR 0x20, CHR 0xA0])"

definition js_trim :: "string \<Rightarrow> string" where
  "js_trim s = rev (dropWhile js_whitespace (rev (dropWhile js_whitespace s)))"

subsection \<open>Numbers\<close>

text \<open>
  A JavaScript number is a binary64 double. A finite double is a rational \<open>m * 2^e\<close>
  with \<open>\<bar>m\<bar> \<le> 2^53\<close>; division and multiplication return the exact result rounded to
  the nearest such number, a tie going to the even significand. \<open>binade n d\<close> is the
  exponent of the power of two at or below \<open>n / d\<close>. Overflow and subnormal numbers are
  left out: the operands here are counts of table cells and the constant 100.
\<close>

function binade :: "int \<Rightarrow> int \<Rightarrow> int" where
  "binade n d =
     (if n \<le> 0 \<or> d \<le> 0 then 0
      else if 2 * d \<le> n then binade n (2 * d) + 1
      else if n < d then binade (2 * n) d - 1
      else 0)"
  by pat_completeness auto
termination
  by (relation "measure (\<lambda>(n, d). nat (if 2 * d \<le> n then n - d else if n < d then 2 * d - n else 0))")
     auto

declare binade.simps [simp del]

definition pow2 :: "int \<Rightarrow> rat" where
  "pow2 e = (if 0 \<le> e then 2 ^ nat e else 1 / 2 ^ nat (- e))"

definition round_half_even :: "rat \<Rightarrow> int" where
  "round_half_even x =
     (let f = \<lfloor>x\<rfloor>; r = x - of_int f
      in if r < 1 / 2 then f else if 1 / 2 < r then f + 1 else if even f then f else f + 1)"

definition to_double :: "rat \<Rightarrow> rat" where
  "to_double x =
     (if x = 0 then 0
      else
        let (n, d) = quotient_of \<bar>x\<bar>;
            u = pow2 (binade n d - 52)
        in sgn x * of_int (round_half_even (\<bar>x\<bar> / u)) * u)"

definition js_div :: "rat \<Rightarrow> rat \<Rightarrow> rat" where
  "js_div a b = to_double (a / b)"

definition js_mul :: "rat \<Rightarrow> rat \<Rightarrow> rat" where
  "js_mul a b = to_double (a * b)"

text \<open>\<open>Math.round\<close>: the nearest integer, a tie going up.\<close>

definition Math_round :: "rat \<Rightarrow> int" where
  "Math_round x = \<lfloor>x + 1 / 2\<rfloor>"

subsection \<open>The page, the database and the manager\<close>

text \<open>
  A table cell \<open>td.word\<close>, as far as the script reads and writes it: its text, the class
  \<open>learned\<close>, the flag \<open>dataset.listenerBound === '1'\<close>, the number of click listeners
  that \<open>addWordCellListener\<close> has attached, whether its title has been set, and the
  table row \<open>td.closest('tr')\<close> it stands in. Cells live in a heap and are named by their
  address: the same cell can be reached from several node lists.
\<close>

record cell =
  textContent :: string
  learned :: bool
  listenerBound :: bool
  clickListeners :: nat
  hasTitle :: bool
  row :: nat

text \<open>
  The texts the script writes to the status element (Ukrainian in the source): progress
  saved, saving failed, progress loaded from the database, progress is saved
  automatically.
\<close>

datatype status_msg = StatusUnset | ProgressSaved | SaveError | LoadedFromDatabase | SavedAutomatically

text \<open>
  The object store \<open>progress\<close> of the database \<open>german-words-db\<close>: the record under the key
  \<open>progress\<close>, and whether the platform lets the next open, read and write succeed.
\<close>

record store =
  dbOpens :: bool
  dbReads :: bool
  dbWrites :: bool
  dbRecord :: "jsval option"

datatype permission = Granted | Denied | Prompt

datatype permission_call = QueryPermission | RequestPermission

text \<open>
  A file handle of the File System Access API: what reading the file gives, and what the
  platform answers to \<open>queryPermission\<close> and to \<open>requestPermission\<close>.
\<close>

record file_handle =
  fileText :: "js_error + string"
  queryPermission :: "js_error + permission"
  requestPermission :: "js_error + permission"

text \<open>
  The fields of \<open>ProgressManager\<close> and the parts of the page it touches. \<open>documentCells\<close>
  is \<open>document.querySelectorAll('td.word')\<close>; \<open>wordCells\<close> is the array the manager
  cached from it. The status element and the hide button are dereferenced without a
  check by the script and are taken to exist; the three parts of the progress bar are
  checked for \<open>null\<close> and are optional. The bar holds \<open>aria-valuenow\<close>, the fill its width
  in percent, the text the three numbers of \<open>learned/total (percent%)\<close>.
\<close>

record manager =
  PAGE_ID :: string
  fileHandle :: "file_handle option"
  progress :: jsval
  hideLearned :: bool
  totalWords :: nat
  learnedCount :: nat
  wordCells :: "nat list"
  cells :: "nat \<Rightarrow> cell"
  rowHidden :: "nat \<Rightarrow> bool"
  documentCells :: "nat list"
  statusEl :: status_msg
  btnHide :: bool
  progressBar :: "int option"
  progressFill :: "int option"
  progressText :: "(nat \<times> nat \<times> int) option"
  storedHideLearned :: bool
  db :: store

text \<open>Sequencing of statements that can throw, and \<open>try { ... } catch { ... }\<close>.\<close>

definition andThen ::
  "completion \<times> manager \<Rightarrow> (manager \<Rightarrow> completion \<times> manager) \<Rightarrow> completion \<times> manager" where
  "andThen r f = (case r of (Normal, m) \<Rightarrow> f m | (Throw e, m) \<Rightarrow> (Throw e, m))"

definition tryCatch ::
  "completion \<times> manager \<Rightarrow> (manager \<Rightarrow> completion \<times> manager) \<Rightarrow> completion \<times> manager" where
  "tryCatch r h = (case r of (Normal, m) \<Rightarrow> (Normal, m) | (Throw e, m) \<Rightarrow> h m)"

text \<open>The document of the constructor: \<open>{ pages: {} }\<close>.\<close>

definition empty_progress :: jsval where
  "empty_progress = JObj [(''pages'', JObj [])]"

subsection \<open>IndexedDB helpers\<close>

definition idbOpen :: "manager \<Rightarrow> completion \<times> manager" where
  "idbOpen m = (if dbOpens (db m) then (Normal, m) else (Throw DOMException, m))"

definition idbPut :: "jsval \<Rightarrow> manager \<Rightarrow> completion \<times> manager" where
  "idbPut v m =
     (if dbWrites (db m) then (Normal, m\<lparr>db := (db m)\<lparr>dbRecord := Some v\<rparr>\<rparr>)
      else (Throw DOMException, m))"

definition idbGet :: "manager \<Rightarrow> js_error + jsval" where
  "idbGet m =
     (if dbReads (db m) then Inr (case dbRecord (db m) of None \<Rightarrow> JUndefined | Some v \<Rightarrow> v)
      else Inl DOMException)"

subsection \<open>Progress helpers\<close>

text \<open>
  \<open>getSet\<close>: \<open>const arr = this.progress.pages[this.PAGE_ID] || []; return new Set(arr)\<close>.
\<close>

definition getSet :: "manager \<Rightarrow> js_error + jsval list" where
  "getSet m =
     (case js_get (progress m) ''pages'' of
        Inl e \<Rightarrow> Inl e
      | Inr pages \<Rightarrow>
          (case js_get pages (PAGE_ID m) of
             Inl e \<Rightarrow> Inl e
           | Inr arr \<Rightarrow> js_new_set (if truthy arr then arr else JArr [])))"

text \<open>
  \<open>setSet\<close>: \<open>this.progress.pages[this.PAGE_ID] = [...set].sort()\<close>. The assignment changes
  the object \<open>pages\<close> that \<open>this.progress\<close> holds.
\<close>

fun with_pages :: "jsval \<Rightarrow> jsval \<Rightarrow> jsval" where
  "with_pages (JObj kvs) pages = JObj (AList.update ''pages'' pages kvs)"
| "with_pages v pages = v"

definition setSet :: "jsval list \<Rightarrow> manager \<Rightarrow> completion \<times> manager" where
  "setSet s m =
     (case js_get (progress m) ''pages'' of
        Inl e \<Rightarrow> (Throw e, m)
      | Inr pages \<Rightarrow>
          (case js_sort s of
             Inl e \<Rightarrow> (Throw e, m)
           | Inr sorted_items \<Rightarrow>
               (case js_set pages (PAGE_ID m) (JArr sorted_items) of
                  Inl e \<Rightarrow> (Throw e, m)
                | Inr pages' \<Rightarrow> (Normal, m\<lparr>progress := with_pages (progress m) pages'\<rparr>))))"

definition updateHideButton :: "manager \<Rightarrow> manager" where
  "updateHideButton m = m\<lparr>btnHide := hideLearned m\<rparr>"

definition hideRow :: "nat \<Rightarrow> manager \<Rightarrow> manager" where
  "hideRow td m =
     m\<lparr>rowHidden := (rowHidden m)(row (cells m td) := (hideLearned m \<and> learned (cells m td)))\<rparr>"

definition applyHide :: "manager \<Rightarrow> manager" where
  "applyHide m = updateHideButton ((fold hideRow (wordCells m) m)\<lparr>storedHideLearned := hideLearned m\<rparr>)"

subsection \<open>Progress UI helpers\<close>

definition computeTotals :: "manager \<Rightarrow> completion \<times> manager" where
  "computeTotals m =
     (let m1 = m\<lparr>wordCells := documentCells m\<rparr>
      in case getSet m1 of
           Inl e \<Rightarrow> (Throw e, m1)
         | Inr s \<Rightarrow>
             (let m2 = m1\<lparr>totalWords := length (wordCells m1)\<rparr>;
                  learnedByClass = length (filter (\<lambda>td. learned (cells m2 td)) (wordCells m2));
                  learnedBySet = length s
              in (Normal, m2\<lparr>learnedCount := max learnedByClass learnedBySet\<rparr>)))"

definition updateProgressUI :: "manager \<Rightarrow> manager" where
  "updateProgressUI m =
     (if progressBar m = None \<or> progressFill m = None \<or> progressText m = None then m
      else
        let total = totalWords m;
            learned_shown = min (learnedCount m) total;
            percent = (if total = 0 then 0
                       else Math_round (js_mul (js_div (of_nat learned_shown) (of_nat total)) 100))
        in m\<lparr>progressFill := Some percent,
             progressBar := Some percent,
             progressText := Some (learned_shown, total, percent)\<rparr>)"

definition recalculateAndUpdateUI :: "manager \<Rightarrow> completion \<times> manager" where
  "recalculateAndUpdateUI m = andThen (computeTotals m) (\<lambda>m'. (Normal, updateProgressUI m'))"

definition markCell :: "jsval list \<Rightarrow> nat \<Rightarrow> manager \<Rightarrow> manager" where
  "markCell learned_set td m =
     m\<lparr>cells := (cells m)(td := (cells m td)
        \<lparr>learned := set_has learned_set (JStr (js_trim (textContent (cells m td)))),
         hasTitle := True\<rparr>)\<rparr>"

definition applyMarks :: "manager \<Rightarrow> completion \<times> manager" where
  "applyMarks m =
     (case getSet m of
        Inl e \<Rightarrow> (Throw e, m)
      | Inr learned_set \<Rightarrow>
          recalculateAndUpdateUI (applyHide (fold (markCell learned_set) (wordCells m) m)))"

subsection \<open>Saving and loading\<close>

definition saveProgressToDB :: "manager \<Rightarrow> completion \<times> manager" where
  "saveProgressToDB m =
     tryCatch
       (andThen (idbOpen m) (\<lambda>m1.
        andThen (idbPut (progress m1) m1) (\<lambda>m2.
        (Normal, m2\<lparr>statusEl := ProgressSaved\<rparr>))))
       (\<lambda>m'. (Normal, m'\<lparr>statusEl := SaveError\<rparr>))"

text \<open>
  The value that the \<open>try\<close> block of \<open>loadFromFile\<close> assigns to \<open>this.progress\<close>, given what
  \<open>JSON.parse\<close> made of the text; the \<open>catch\<close> block assigns the empty document.
\<close>

definition loadedProgress :: "js_error + jsval \<Rightarrow> jsval" where
  "loadedProgress r =
     (case r of
        Inl e \<Rightarrow> empty_progress
      | Inr parsed \<Rightarrow>
          if truthy parsed \<and> typeof_object parsed
          then (case js_get parsed ''pages'' of
                  Inl e \<Rightarrow> empty_progress
                | Inr p \<Rightarrow> if truthy p then parsed else JObj [(''pages'', parsed)])
          else empty_progress)"

text \<open>
  \<open>loadFromFile\<close>, with \<open>JSON.parse\<close> as a parameter. Reading the file and the call of
  \<open>applyMarks\<close> stand outside the \<open>try\<close> block.
\<close>

definition loadFromFile :: "(string \<Rightarrow> js_error + jsval) \<Rightarrow> manager \<Rightarrow> completion \<times> manager" where
  "loadFromFile JSON_parse m =
     (case fileHandle m of
        None \<Rightarrow> (Throw TypeError, m)
      | Some h \<Rightarrow>
          (case fileText h of
             Inl e \<Rightarrow> (Throw e, m)
           | Inr txt \<Rightarrow> applyMarks (m\<lparr>progress := loadedProgress (JSON_parse txt)\<rparr>)))"

definition ensurePermission ::
  "file_handle option \<Rightarrow> (js_error + permission) \<times> permission_call list" where
  "ensurePermission handle =
     (case handle of
        None \<Rightarrow> (Inr Denied, [])
      | Some h \<Rightarrow>
          (case queryPermission h of
             Inl e \<Rightarrow> (Inl e, [QueryPermission])
           | Inr state \<Rightarrow>
               if state = Granted then (Inr state, [QueryPermission])
               else if state = Prompt
               then (requestPermission h, [QueryPermission, RequestPermission])
               else (Inr state, [QueryPermission])))"

definition bootFallback :: "manager \<Rightarrow> completion \<times> manager" where
  "bootFallback m =
     andThen (applyMarks (m\<lparr>statusEl := SavedAutomatically\<rparr>))
       (\<lambda>m'. recalculateAndUpdateUI (updateHideButton m'))"

definition boot :: "manager \<Rightarrow> completion \<times> manager" where
  "boot m =
     tryCatch
       (andThen (idbOpen m) (\<lambda>m1.
          case idbGet m1 of
            Inl e \<Rightarrow> (Throw e, m1)
          | Inr stored \<Rightarrow>
              if truthy stored
              then andThen (applyMarks (m1\<lparr>progress := stored\<rparr>))
                     (\<lambda>m2. (Normal, m2\<lparr>statusEl := LoadedFromDatabase\<rparr>))
              else bootFallback m1))
       bootFallback"

subsection \<open>Binding the cells\<close>

definition addWordCellListener :: "nat option \<Rightarrow> manager \<Rightarrow> manager" where
  "addWordCellListener td m =
     (case td of
        None \<Rightarrow> m
      | Some a \<Rightarrow>
          if listenerBound (cells m a) then m
          else m\<lparr>cells := (cells m)(a := (cells m a)
                 \<lparr>listenerBound := True, clickListeners := Suc (clickListeners (cells m a))\<rparr>)\<rparr>)"

text \<open>
  The click listener that \<open>addWordCellListener\<close> attaches to the cell at address \<open>td\<close>,
  run from its first to its last statement (the \<open>await\<close> of the save is a point where
  another listener could run; that interleaving is not part of the model).
\<close>

definition wordCellClick :: "nat \<Rightarrow> manager \<Rightarrow> completion \<times> manager" where
  "wordCellClick td m =
     (let w = JStr (js_trim (textContent (cells m td)))
      in case getSet m of
           Inl e \<Rightarrow> (Throw e, m)
         | Inr s \<Rightarrow>
             (let (s', m1) =
                    (if set_has s w
                     then (set_delete w s, m\<lparr>cells := (cells m)(td := (cells m td)\<lparr>learned := False\<rparr>)\<rparr>)
                     else (set_add w s, m\<lparr>cells := (cells m)(td := (cells m td)\<lparr>learned := True\<rparr>)\<rparr>))
              in andThen (setSet s' m1) (\<lambda>m2.
                 andThen (saveProgressToDB m2) (\<lambda>m3.
                 recalculateAndUpdateUI (applyHide m3)))))"

text \<open>
  A node that a mutation record lists: a text node, or an element with its children. An
  element that matches \<open>td.word\<close> carries the address of its cell.
\<close>

datatype node = TextNode | Element "nat option" "node list"

datatype mutation_type = ChildList | Attributes | CharacterData

record mutation_record =
  mutationType :: mutation_type
  addedNodes :: "node list"

fun subtree_cells :: "node \<Rightarrow> nat list" where
  "subtree_cells TextNode = []"
| "subtree_cells (Element c kids) =
     (case c of None \<Rightarrow> [] | Some a \<Rightarrow> [a]) @ concat (map subtree_cells kids)"

text \<open>\<open>node.querySelectorAll('td.word')\<close>: the matching descendants, in document order.\<close>

fun querySelectorAll_word :: "node \<Rightarrow> nat list" where
  "querySelectorAll_word TextNode = []"
| "querySelectorAll_word (Element c kids) = concat (map subtree_cells kids)"

text \<open>The body of \<open>m.addedNodes.forEach\<close> in the observer's callback.\<close>

fun bindAddedNode :: "node \<Rightarrow> manager \<Rightarrow> manager" where
  "bindAddedNode TextNode m = m"
| "bindAddedNode (Element c kids) m =
     fold (\<lambda>td. addWordCellListener (Some td)) (querySelectorAll_word (Element c kids))
       (case c of None \<Rightarrow> m | Some a \<Rightarrow> addWordCellListener (Some a) m)"

definition bindMutation :: "mutation_record \<Rightarrow> manager \<Rightarrow> manager" where
  "bindMutation mu m = (if mutationType mu = ChildList then fold bindAddedNode (addedNodes mu) m else m)"

definition observerCallback :: "mutation_record list \<Rightarrow> manager \<Rightarrow> completion \<times> manager" where
  "observerCallback mutations m =
     (let m' = fold bindMutation mutations m;
          needsRecalc = list_ex (\<lambda>mu. mutationType mu = ChildList) mutations
      in if needsRecalc then recalculateAndUpdateUI m' else (Normal, m'))"

text \<open>\<open>setupEventListeners\<close> binds the cells that exist when the manager is built.\<close>

definition setupEventListeners :: "manager \<Rightarrow> manager" where
  "setupEventListeners m = fold (\<lambda>td. addWordCellListener (Some td)) (wordCells m) m"

subsection \<open>What the design document asks for\<close>

text \<open>
  The persisted format: an object with a field \<open>pages\<close> that maps page identifiers to
  arrays of strings; in its canonical form each array is sorted and free of duplicates.
  A key is plain when \<open>Object.prototype\<close> has no member of that name.
\<close>

definition plain_key :: "string \<Rightarrow> bool" where
  "plain_key k = (k \<notin> set object_prototype_members)"

definition strings_of :: "jsval list \<Rightarrow> string list" where
  "strings_of xs = map (\<lambda>x. the (js_string x)) xs"

fun string_array :: "jsval \<Rightarrow> bool" where
  "string_array (JArr xs) = list_all is_string xs"
| "string_array v = False"

fun canonical_array :: "jsval \<Rightarrow> bool" where
  "canonical_array (JArr xs) =
     (list_all is_string xs \<and> sorted (strings_of xs) \<and> distinct (strings_of xs))"
| "canonical_array v = False"

definition pages_of :: "jsval \<Rightarrow> (string \<times> jsval) list option" where
  "pages_of p =
     (case p of
        JObj kvs \<Rightarrow> (case map_of kvs ''pages'' of Some (JObj ps) \<Rightarrow> Some ps | _ \<Rightarrow> None)
      | _ \<Rightarrow> None)"

definition progress_document :: "jsval \<Rightarrow> bool" where
  "progress_document p =
     (case pages_of p of None \<Rightarrow> False | Some ps \<Rightarrow> list_all (\<lambda>kv. string_array (snd kv)) ps)"

definition canonical_document :: "jsval \<Rightarrow> bool" where
  "canonical_document p =
     (case pages_of p of None \<Rightarrow> False | Some ps \<Rightarrow> list_all (\<lambda>kv. canonical_array (snd kv)) ps)"

text \<open>The learned items of a page in a document: the elements of its array, none when the page has no entry.\<close>

definition page_items :: "jsval \<Rightarrow> string \<Rightarrow> jsval list" where
  "page_items p page =
     (case pages_of p of
        None \<Rightarrow> []
      | Some ps \<Rightarrow> (case map_of ps page of Some (JArr xs) \<Rightarrow> xs | _ \<Rightarrow> []))"

text \<open>The percentage of the design document: \<open>round(100 * learned / total)\<close>, and 0 when \<open>total = 0\<close>.\<close>

definition spec_percent :: "nat \<Rightarrow> nat \<Rightarrow> int" where
  "spec_percent learned_items total_items =
     (if total_items = 0 then 0
      else \<lfloor>100 * rat_of_nat learned_items / rat_of_nat total_items + 1 / 2\<rfloor>)"

text \<open>
  The words of the claims: the number of visible cells that carry the class \<open>learned\<close>,
  and the learned count that the progress text shows.
\<close>

definition flagged_count :: "manager \<Rightarrow> nat" where
  "flagged_count m = length (filter (\<lambda>td. learned (cells m td)) (documentCells m))"

definition published_learned :: "manager \<Rightarrow> nat option" where
  "published_learned m = (case progressText m of None \<Rightarrow> None | Some (l, t, p) \<Rightarrow> Some l)"

definition published_percent :: "manager \<Rightarrow> int option" where
  "published_percent m = (case progressText m of None \<Rightarrow> None | Some (l, t, p) \<Rightarrow> Some p)"

subsection \<open>A page to run the methods on\<close>

text \<open>
  A page \<open>verbs\<close> with two word cells, \<open>Haus\<close> at address 0 and \<open>Baum\<close> (with blanks
  around it) at address 1, a progress bar, a database that works, and the manager as
  its constructor leaves it.
\<close>

definition page_cells :: "nat \<Rightarrow> cell" where
  "page_cells a =
     \<lparr>textContent = (if a = 0 then ''Haus'' else '' Baum ''), learned = False,
      listenerBound = False, clickListeners = 0, hasTitle = False, row = a\<rparr>"

definition working_db :: store where
  "working_db = \<lparr>dbOpens = True, dbReads = True, dbWrites = True, dbRecord = None\<rparr>"

definition fresh_manager :: manager where
  "fresh_manager =
     \<lparr>PAGE_ID = ''verbs'', fileHandle = None, progress = empty_progress, hideLearned = False,
      totalWords = 0, learnedCount = 0, wordCells = [0, 1], cells = page_cells,
      rowHidden = (\<lambda>r. False), documentCells = [0, 1], statusEl = StatusUnset,
      btnHide = False, progressBar = Some 0, progressFill = Some 0,
      progressText = Some (0, 0, 0), storedHideLearned = False, db = working_db\<rparr>"

text \<open>The same page after a document with three learned words has been installed.\<close>

definition three_learned :: manager where
  "three_learned = fresh_manager\<lparr>progress :=
      JObj [(''pages'', JObj [(''verbs'', JArr [JStr ''Baum'', JStr ''Haus'', JStr ''Tisch''])])]\<rparr>"

text \<open>A page with forty word cells, of which the first 23 carry the class \<open>learned\<close>.\<close>

definition forty_cells :: manager where
  "forty_cells =
     fresh_manager\<lparr>documentCells := [0..<40],
                    cells := (\<lambda>a. (page_cells a)\<lparr>learned := a < 23\<rparr>)\<rparr>"

text \<open>The parts of the manager that the save, the hide filter and the recount leave alone.\<close>

definition same_model :: "manager \<Rightarrow> manager \<Rightarrow> bool" where
  "same_model m m' =
     (progress m' = progress m \<and> cells m' = cells m \<and> PAGE_ID m' = PAGE_ID m \<and>
      documentCells m' = documentCells m)"

text \<open>
  The identifier of the item in a cell is its trimmed text. A run of clicks on the cells
  of a list, one listener run after the other, stops at the first that throws.
\<close>

definition item_id :: "manager \<Rightarrow> nat \<Rightarrow> jsval" where
  "item_id m td = JStr (js_trim (textContent (cells m td)))"




text \<open>
  The page with a file handle whose file can be read, and \<open>JSON.parse\<close> for a text that
  parses to a given value.
\<close>

definition manager_with_file :: manager where
  "manager_with_file =
     fresh_manager\<lparr>fileHandle :=
       Some \<lparr>fileText = Inr ''progress.json'', queryPermission = Inr Granted,
             requestPermission = Inr Granted\<rparr>\<rparr>"

definition parses_to :: "jsval \<Rightarrow> string \<Rightarrow> js_error + jsval" where
  "parses_to v txt = Inr v"

text \<open>The page with a database that holds a given record.\<close>

definition manager_with_record :: "jsval \<Rightarrow> manager" where
  "manager_with_record v = fresh_manager\<lparr>db := working_db\<lparr>dbRecord := Some v\<rparr>\<rparr>"



text \<open>
  The cells that a scan tries to bind, in the order of the calls of
  \<open>addWordCellListener\<close>: for every added node of every \<open>childList\<close> record the node
  itself if it is a word cell, then the word cells below it. A cell that two added
  nodes reach is listed twice.
\<close>

definition scanned_cells :: "mutation_record list \<Rightarrow> nat list" where
  "scanned_cells mutations =
     concat (map (\<lambda>mu. if mutationType mu = ChildList
                         then concat (map subtree_cells (addedNodes mu)) else [])
                 mutations)"

definition bindCells :: "nat list \<Rightarrow> manager \<Rightarrow> manager" where
  "bindCells tds m = fold (\<lambda>td. addWordCellListener (Some td)) tds m"

text \<open>The callback of the observer run again and again on the same mutation records.\<close>

fun rescan :: "nat \<Rightarrow> mutation_record list \<Rightarrow> manager \<Rightarrow> manager" where
  "rescan 0 mutations m = m"
| "rescan (Suc k) mutations m = rescan k mutations (snd (observerCallback mutations m))"

text \<open>
  A row with the two cells of the page is inserted, and the record lists the first cell
  once more as a node of its own.
\<close>

definition row_inserted :: "mutation_record list" where
  "row_inserted =
     [\<lparr>mutationType = ChildList,
       addedNodes = [Element None [Element (Some 0) [], TextNode, Element (Some 1) []],
                     Element (Some 0) []]\<rparr>]"

section \<open>Properties\<close>

subsection \<open>The model of doubles\<close>

text \<open>
  \<open>binade\<close> finds the power of two at or below a positive quotient, and \<open>to_double\<close> of a
  positive number is a significand of 53 bits times a power of two, at most half a unit
  in the last place away from the number.
\<close>

lemma pow2_pos: "0 < pow2 e"
  by (simp add: pow2_def)

lemma pow2_succ: "pow2 (e + 1) = 2 * pow2 e"
proof (cases "0 \<le> e")
  case True
  then have "nat (e + 1) = Suc (nat e)" by simp
  with True show ?thesis by (simp add: pow2_def)
next
  case False
  then have "nat (- e) = Suc (nat (- (e + 1)))" by simp
  with False show ?thesis by (simp add: pow2_def)
qed

lemma pow2_pred: "2 * pow2 (e - 1) = pow2 e"
  using pow2_succ [of "e - 1"] by simp

lemma binade_bounds:
  "0 < n \<Longrightarrow> 0 < d \<Longrightarrow>
   pow2 (binade n d) * of_int d \<le> of_int n \<and> of_int n < pow2 (binade n d + 1) * of_int d"
proof (induction n d rule: binade.induct)
  case (1 n d)
  show ?case
  proof (cases "2 * d \<le> n")
    case True
    define e where "e = binade n (2 * d)"
    define p where "p = pow2 e"
    from True "1.prems" have b: "binade n d = e + 1"
      unfolding e_def by (subst binade.simps) simp
    from "1.IH"(1) True "1.prems"
    have ih: "p * of_int (2 * d) \<le> of_int n" "of_int n < pow2 (e + 1) * of_int (2 * d)"
      unfolding e_def p_def by simp_all
    have p1: "pow2 (e + 1) = 2 * p" unfolding p_def by (rule pow2_succ)
    have p2: "pow2 (e + 1 + 1) = 2 * (2 * p)" using pow2_succ [of "e + 1"] p1 by simp
    from ih show ?thesis
      unfolding b p1 p2 by (simp add: algebra_simps)
  next
    case False
    show ?thesis
    proof (cases "n < d")
      case True
      define e where "e = binade (2 * n) d"
      define p where "p = pow2 (e - 1)"
      from True False "1.prems" have b: "binade n d = e - 1"
        unfolding e_def by (subst binade.simps) simp
      from "1.IH"(2) False True "1.prems"
      have ih: "pow2 e * of_int d \<le> of_int (2 * n)" "of_int (2 * n) < pow2 (e + 1) * of_int d"
        unfolding e_def by simp_all
      have p1: "pow2 e = 2 * p" unfolding p_def by (simp add: pow2_pred)
      have p2: "pow2 (e + 1) = 2 * (2 * p)" using pow2_succ [of e] p1 by simp
      have p0: "pow2 (e - 1 + 1) = 2 * p" using p1 by simp
      from ih show ?thesis
        unfolding b p0 p1 p2 p_def [symmetric] by (simp add: algebra_simps)
    next
      case False
      with \<open>\<not> 2 * d \<le> n\<close> "1.prems" have b: "binade n d = 0"
        by (subst binade.simps) simp
      from False \<open>\<not> 2 * d \<le> n\<close> have "d \<le> n" "n < 2 * d" by simp_all
      then have "(of_int d :: rat) \<le> of_int n" "(of_int n :: rat) < of_int (2 * d)"
        by (simp_all only: of_int_le_iff of_int_less_iff)
      then show ?thesis by (simp add: b pow2_def)
    qed
  qed
qed

lemma round_half_even_close: "\<bar>of_int (round_half_even x) - x\<bar> \<le> 1 / 2"
proof -
  have "of_int \<lfloor>x\<rfloor> \<le> x" "x < of_int \<lfloor>x\<rfloor> + 1" by linarith+
  then show ?thesis by (auto simp: round_half_even_def Let_def)
qed

lemma round_half_even_lower: "of_int a \<le> x \<Longrightarrow> a \<le> round_half_even x"
proof -
  assume "of_int a \<le> x"
  then have "a \<le> \<lfloor>x\<rfloor>" by (simp add: le_floor_iff)
  then show ?thesis by (auto simp: round_half_even_def Let_def)
qed

lemma round_half_even_upper: "x \<le> of_int b \<Longrightarrow> round_half_even x \<le> b"
proof -
  assume b: "x \<le> of_int b"
  have f: "of_int \<lfloor>x\<rfloor> \<le> x" by simp
  show ?thesis
  proof (cases "x = of_int b")
    case True
    then show ?thesis by (simp add: round_half_even_def Let_def)
  next
    case False
    with b have "x < of_int b" by simp
    then have "\<lfloor>x\<rfloor> < b" by (simp add: floor_less_iff)
    then show ?thesis by (auto simp: round_half_even_def Let_def)
  qed
qed

lemma to_double_nearest:
  assumes "0 < x"
  shows "\<exists>m e. to_double x = of_int m * pow2 e \<and> 2 ^ 52 \<le> m \<and> m \<le> 2 ^ 53 \<and>
           \<bar>to_double x - x\<bar> \<le> pow2 e / 2"
proof -
  obtain n d where q: "quotient_of x = (n, d)" by (cases "quotient_of x")
  then have d: "0 < d" by (rule quotient_of_denom_pos)
  from q have x: "x = of_int n / of_int d" by (rule quotient_of_div)
  with assms d have n: "0 < n" by (simp add: zero_less_divide_iff)
  define e where "e = binade n d - 52"
  define u where "u = pow2 e"
  define m where "m = round_half_even (x / u)"
  have u: "0 < u" unfolding u_def by (rule pow2_pos)
  from assms have ax: "\<bar>x\<bar> = x" "sgn x = 1" "x \<noteq> 0" by simp_all
  have td: "to_double x = of_int m * u"
    by (simp add: to_double_def ax q Let_def e_def u_def m_def)
  have shift: "pow2 (k + 52) = 2 ^ 52 * pow2 k" for k
  proof (cases "0 \<le> k")
    case True
    then have "nat (k + 52) = nat k + 52" by simp
    with True show ?thesis by (simp add: pow2_def power_add)
  next
    case False
    show ?thesis
    proof (cases "0 \<le> k + 52")
      case True
      with False have "nat (- k) + nat (k + 52) = 52" by simp
      then have "(2::rat) ^ 52 = 2 ^ nat (- k) * 2 ^ nat (k + 52)" by (simp add: power_add [symmetric])
      with False True show ?thesis by (simp add: pow2_def field_simps)
    next
      case False
      then have "nat (- k) = nat (- (k + 52)) + 52" by simp
      with False \<open>\<not> 0 \<le> k\<close> show ?thesis by (simp add: pow2_def power_add)
    qed
  qed
  from binade_bounds [OF n d]
  have b: "pow2 (binade n d) * of_int d \<le> of_int n" "of_int n < pow2 (binade n d + 1) * of_int d"
    by simp_all
  have be: "pow2 (binade n d) = 2 ^ 52 * u" using shift [of e] by (simp add: e_def u_def)
  have be1: "pow2 (binade n d + 1) = 2 ^ 53 * u" using pow2_succ [of "binade n d"] be by simp
  from b(1) d have "2 ^ 52 * u \<le> x" by (simp add: x be pos_le_divide_eq)
  with u have lo: "2 ^ 52 \<le> x / u" by (simp add: pos_le_divide_eq)
  from b(2) d have "x < 2 ^ 53 * u" by (simp add: x be1 pos_divide_less_eq)
  with u have hi: "x / u < 2 ^ 53" by (simp add: pos_divide_less_eq)
  from lo have "of_int (2 ^ 52) \<le> x / u" by simp
  then have m1: "2 ^ 52 \<le> m" unfolding m_def by (rule round_half_even_lower)
  from hi have "x / u \<le> of_int (2 ^ 53)" by simp
  then have m2: "m \<le> 2 ^ 53" unfolding m_def by (rule round_half_even_upper)
  have "\<bar>of_int m - x / u\<bar> \<le> 1 / 2" unfolding m_def by (rule round_half_even_close)
  then have "\<bar>of_int m - x / u\<bar> * u \<le> 1 / 2 * u" using u by (simp add: mult_right_mono)
  moreover have "\<bar>of_int m - x / u\<bar> * u = \<bar>(of_int m - x / u) * u\<bar>"
    using u by (simp add: abs_mult)
  moreover have "(of_int m - x / u) * u = of_int m * u - x"
    using u by (simp add: left_diff_distrib)
  ultimately have "\<bar>to_double x - x\<bar> \<le> u / 2" by (simp add: td)
  with td m1 m2 show ?thesis unfolding u_def by blast
qed

subsection \<open>Sets\<close>

lemma set_has_primitive: "is_primitive x \<Longrightarrow> set_has s x = (x \<in> set s)"
  by (auto simp: set_has_def list_ex_iff same_value_zero_def)

lemma inherited_pages: "inherited ''pages'' = JUndefined"
  by (simp add: inherited_def object_prototype_members_def)

lemma inherited_plain: "plain_key k \<Longrightarrow> inherited k = JUndefined"
  by (simp add: inherited_def plain_key_def)

lemma inherited_member: "\<not> plain_key k \<Longrightarrow> inherited k = JBuiltin k"
  by (simp add: inherited_def plain_key_def)

lemma is_primitive_JStr: "is_string x \<Longrightarrow> is_primitive x"
  by (cases x) auto

lemma fold_set_add_set:
  "list_all is_primitive xs \<Longrightarrow> set (fold set_add xs acc) = set acc \<union> set xs"
  by (induction xs arbitrary: acc) (auto simp: set_add_def set_has_primitive)

lemma fold_set_add_distinct:
  "list_all is_primitive xs \<Longrightarrow> distinct acc \<Longrightarrow> distinct (fold set_add xs acc)"
  by (induction xs arbitrary: acc) (auto simp: set_add_def set_has_primitive)

lemma strings_primitive: "list_all is_string xs \<Longrightarrow> list_all is_primitive xs"
  by (induction xs) (auto simp: is_primitive_JStr)

subsection \<open>Permission\<close>

text \<open>
  Claim C10. Called with no handle, \<open>ensurePermission\<close> answers \<open>denied\<close> and calls
  neither \<open>queryPermission\<close> nor \<open>requestPermission\<close>. Called with a handle, it queries
  once, and it requests once, after the query, exactly when the query answered
  \<open>prompt\<close>; otherwise it requests nothing.
\<close>

theorem ensurePermission_calls:
  "ensurePermission None = (Inr Denied, []) \<and>
   snd (ensurePermission (Some h)) =
     (if queryPermission h = Inr Prompt then [QueryPermission, RequestPermission]
      else [QueryPermission])"
  by (auto simp: ensurePermission_def split: sum.splits permission.splits)

subsection \<open>Saving\<close>

lemma saveProgressToDB_open_fails:
  "\<not> dbOpens (db m) \<Longrightarrow> saveProgressToDB m = (Normal, m\<lparr>statusEl := SaveError\<rparr>)"
  by (simp add: saveProgressToDB_def idbOpen_def andThen_def tryCatch_def)

lemma saveProgressToDB_put_fails:
  "dbOpens (db m) \<Longrightarrow> \<not> dbWrites (db m) \<Longrightarrow>
   saveProgressToDB m = (Normal, m\<lparr>statusEl := SaveError\<rparr>)"
  by (simp add: saveProgressToDB_def idbOpen_def idbPut_def andThen_def tryCatch_def)

lemma saveProgressToDB_succeeds:
  "dbOpens (db m) \<Longrightarrow> dbWrites (db m) \<Longrightarrow>
   saveProgressToDB m =
     (Normal, m\<lparr>db := (db m)\<lparr>dbRecord := Some (progress m)\<rparr>, statusEl := ProgressSaved\<rparr>)"
  by (simp add: saveProgressToDB_def idbOpen_def idbPut_def andThen_def tryCatch_def)

text \<open>
  Claim C5. When the write to the database fails, \<open>saveProgressToDB\<close> completes
  normally (nothing is thrown to its caller), and the manager it leaves differs from
  the one it started with in the status text only, which reports the failure: the
  document in memory is the one from before the call, and so is the record in the
  database.
\<close>

theorem saveProgressToDB_put_failure:
  assumes "\<not> dbWrites (db m)"
  shows "saveProgressToDB m = (Normal, m\<lparr>statusEl := SaveError\<rparr>) \<and>
         progress (snd (saveProgressToDB m)) = progress m \<and>
         dbRecord (db (snd (saveProgressToDB m))) = dbRecord (db m) \<and>
         statusEl (snd (saveProgressToDB m)) = SaveError"
proof (cases "dbOpens (db m)")
  case True
  with assms show ?thesis by (simp add: saveProgressToDB_put_fails)
next
  case False
  then show ?thesis by (simp add: saveProgressToDB_open_fails)
qed

theorem saveProgressToDB_put_failure_witness:
  "\<not> dbWrites (db (fresh_manager\<lparr>db := working_db\<lparr>dbWrites := False\<rparr>\<rparr>)) \<and>
   fst (saveProgressToDB (fresh_manager\<lparr>db := working_db\<lparr>dbWrites := False\<rparr>\<rparr>)) = Normal \<and>
   progress (snd (saveProgressToDB (fresh_manager\<lparr>db := working_db\<lparr>dbWrites := False\<rparr>\<rparr>))) = empty_progress \<and>
   statusEl (snd (saveProgressToDB (fresh_manager\<lparr>db := working_db\<lparr>dbWrites := False\<rparr>\<rparr>))) = SaveError"
  using saveProgressToDB_put_failure [of "fresh_manager\<lparr>db := working_db\<lparr>dbWrites := False\<rparr>\<rparr>"]
  by (simp add: fresh_manager_def working_db_def)

subsection \<open>Reading the set of a page\<close>

lemma pages_of_SomeD:
  "pages_of p = Some ps \<Longrightarrow> \<exists>kvs. p = JObj kvs \<and> map_of kvs ''pages'' = Some (JObj ps)"
  by (auto simp: pages_of_def split: jsval.splits option.splits)

lemma getSet_entry:
  assumes "pages_of (progress m) = Some ps"
  shows "getSet m =
     (case map_of ps (PAGE_ID m) of
        None \<Rightarrow> js_new_set (if truthy (inherited (PAGE_ID m)) then inherited (PAGE_ID m)
                             else JArr [])
      | Some arr \<Rightarrow> js_new_set (if truthy arr then arr else JArr []))"
  using pages_of_SomeD [OF assms]
  by (auto simp: getSet_def split: option.splits)

lemma getSet_inherited:
  assumes "pages_of (progress m) = Some ps" and "map_of ps (PAGE_ID m) = None"
    and "\<not> plain_key (PAGE_ID m)"
  shows "getSet m = Inl TypeError"
  by (simp add: getSet_entry [OF assms(1)] assms(2) inherited_member [OF assms(3)])

lemma getSet_document:
  assumes "pages_of (progress m) = Some ps"
    and "plain_key (PAGE_ID m) \<or> map_of ps (PAGE_ID m) \<noteq> None"
  shows "getSet m =
     (case map_of ps (PAGE_ID m) of
        None \<Rightarrow> Inr []
      | Some arr \<Rightarrow> js_new_set (if truthy arr then arr else JArr []))"
  using assms(2)
  by (auto simp: getSet_entry [OF assms(1)] inherited_plain split: option.splits)

lemma string_array_entry:
  "list_all (\<lambda>kv. string_array (snd kv)) ps \<Longrightarrow> map_of ps k = Some v \<Longrightarrow> string_array v"
  by (auto simp: list_all_iff dest!: map_of_SomeD)

lemma string_arrayD:
  "string_array v \<Longrightarrow> \<exists>xs. v = JArr xs \<and> list_all is_string xs"
  by (cases v) auto

lemma progress_documentD:
  "progress_document p \<Longrightarrow>
   \<exists>ps. pages_of p = Some ps \<and> list_all (\<lambda>kv. string_array (snd kv)) ps"
  by (cases "pages_of p") (simp_all add: progress_document_def)

lemma getSet_on_document:
  assumes "progress_document (progress m)" and "plain_key (PAGE_ID m)"
  shows "\<exists>s. getSet m = Inr s \<and> distinct s \<and>
              set s = set (page_items (progress m) (PAGE_ID m))"
proof -
  from progress_documentD [OF assms(1)] obtain ps where ps: "pages_of (progress m) = Some ps"
    and all: "list_all (\<lambda>kv. string_array (snd kv)) ps"
    by blast
  note get = getSet_document [OF ps disjI1 [OF assms(2)]]
  show ?thesis
  proof (cases "map_of ps (PAGE_ID m)")
    case None
    with ps show ?thesis by (simp add: get page_items_def)
  next
    case (Some v)
    from all Some have "string_array v" by (rule string_array_entry)
    then obtain xs where v: "v = JArr xs" and xs: "list_all is_string xs"
      using string_arrayD by blast
    from xs have prim: "list_all is_primitive xs" by (rule strings_primitive)
    from Some v have g: "getSet m = Inr (fold set_add xs [])"
      by (simp add: get)
    from ps Some v have p: "page_items (progress m) (PAGE_ID m) = xs"
      by (simp add: page_items_def)
    have "set (fold set_add xs []) = set xs"
      using fold_set_add_set [OF prim, of "[]"] by simp
    moreover have "distinct (fold set_add xs [])"
      using fold_set_add_distinct [OF prim, of "[]"] by simp
    ultimately show ?thesis
      by (simp add: g p)
  qed
qed

text \<open>
  Whenever \<open>this.progress\<close> is a progress document (an object whose \<open>pages\<close> maps page
  identifiers to arrays of strings) and the page identifier is a plain key, \<open>getSet\<close>
  returns: it throws nothing, and the set it returns has no duplicates and holds
  exactly the items of the page's array, so it is empty when the page has no entry.
\<close>

lemma getSet_plain_page:
  assumes "progress_document (progress m)" and "plain_key (PAGE_ID m)"
  shows "\<exists>s. getSet m = Inr s \<and> distinct s \<and>
              set s = set (page_items (progress m) (PAGE_ID m))"
  using assms by (rule getSet_on_document)

text \<open>
  Claim C9 at the page \<open>constructor\<close> and the document of the constructor,
  \<open>{ pages: {} }\<close>. The page has no entry, and for a page without entry, such as \<open>nouns\<close>,
  the \<open>|| []\<close> of \<open>getSet\<close> gives the empty set. For \<open>constructor\<close> the read
  \<open>this.progress.pages[this.PAGE_ID]\<close> finds the function \<open>Object\<close> that every plain object
  inherits; it is truthy, so \<open>|| []\<close> keeps it, and \<open>new Set\<close> of a function throws a
  TypeError.
\<close>

theorem getSet_page_constructor:
  "progress_document (progress (fresh_manager\<lparr>PAGE_ID := ''constructor''\<rparr>)) \<and>
   progress (fresh_manager\<lparr>PAGE_ID := ''constructor''\<rparr>) = JObj [(''pages'', JObj [])] \<and>
   page_items (progress (fresh_manager\<lparr>PAGE_ID := ''constructor''\<rparr>)) ''constructor'' = [] \<and>
   getSet (fresh_manager\<lparr>PAGE_ID := ''nouns''\<rparr>) = Inr [] \<and>
   getSet (fresh_manager\<lparr>PAGE_ID := ''constructor''\<rparr>) = Inl TypeError"
  by (simp add: fresh_manager_def empty_progress_def progress_document_def pages_of_def
      page_items_def getSet_def inherited_def object_prototype_members_def)

subsection \<open>The progress bar\<close>

lemma getSet_wordCells: "getSet (m\<lparr>wordCells := x\<rparr>) = getSet m"
  by (simp add: getSet_def cong: sum.case_cong)

lemma computeTotals_ok:
  "getSet m = Inr s \<Longrightarrow>
   computeTotals m =
     (Normal, m\<lparr>wordCells := documentCells m, totalWords := length (documentCells m),
                learnedCount := max (flagged_count m) (length s)\<rparr>)"
  by (simp add: computeTotals_def getSet_wordCells flagged_count_def Let_def)

lemma computeTotals_throws:
  "getSet m = Inl e \<Longrightarrow> computeTotals m = (Throw e, m\<lparr>wordCells := documentCells m\<rparr>)"
  by (simp add: computeTotals_def getSet_wordCells Let_def)

lemma updateProgressUI_shown:
  assumes "progressBar m \<noteq> None" "progressFill m \<noteq> None" "progressText m \<noteq> None"
  shows "progressText (updateProgressUI m) =
     Some (min (learnedCount m) (totalWords m), totalWords m,
           if totalWords m = 0 then 0
           else Math_round (js_mul (js_div (of_nat (min (learnedCount m) (totalWords m)))
                                           (of_nat (totalWords m))) 100))"
  by (simp add: assms updateProgressUI_def Let_def)

text \<open>
  Claim C1, as the code has it. When \<open>getSet\<close> returns and the three parts of the progress
  bar exist, \<open>recalculateAndUpdateUI\<close> completes normally; it stores in \<open>learnedCount\<close> the
  larger of the number of visible cells with the class \<open>learned\<close> and the size of the
  page's set, and it publishes that count cut down to the number of visible cells:
  \<open>updateProgressUI\<close> takes \<open>Math.min(this.learnedCount, total)\<close>.
\<close>

theorem recompute_publishes_clamped:
  assumes "getSet m = Inr s"
    and "progressBar m \<noteq> None" and "progressFill m \<noteq> None" and "progressText m \<noteq> None"
  shows "\<exists>m'. recalculateAndUpdateUI m = (Normal, m') \<and>
           learnedCount m' = max (flagged_count m) (length s) \<and>
           totalWords m' = length (documentCells m) \<and>
           published_learned m' =
             Some (min (max (flagged_count m) (length s)) (length (documentCells m)))"
  by (simp add: assms recalculateAndUpdateUI_def computeTotals_ok andThen_def
      published_learned_def updateProgressUI_def Let_def)

lemma getSet_three_learned: "getSet three_learned = Inr [JStr ''Baum'', JStr ''Haus'', JStr ''Tisch'']"
  by (simp add: three_learned_def fresh_manager_def getSet_def set_add_def
      set_has_def same_value_zero_def inherited_def object_prototype_members_def)

lemma flagged_three_learned: "flagged_count three_learned = 0"
  by (simp add: three_learned_def fresh_manager_def flagged_count_def page_cells_def)

theorem recompute_publishes_clamped_witness:
  "getSet three_learned = Inr [JStr ''Baum'', JStr ''Haus'', JStr ''Tisch''] \<and>
   progressBar three_learned \<noteq> None \<and> progressFill three_learned \<noteq> None \<and>
   progressText three_learned \<noteq> None \<and>
   (\<exists>m'. recalculateAndUpdateUI three_learned = (Normal, m') \<and> learnedCount m' = 3 \<and>
         totalWords m' = 2 \<and> published_learned m' = Some 2)"
proof -
  have w: "progressBar three_learned \<noteq> None" "progressFill three_learned \<noteq> None"
    "progressText three_learned \<noteq> None" "length (documentCells three_learned) = 2"
    by (simp_all add: three_learned_def fresh_manager_def)
  from recompute_publishes_clamped [OF getSet_three_learned w(1) w(2) w(3)]
  show ?thesis
    by (simp add: getSet_three_learned flagged_three_learned w eval_nat_numeral)
qed

text \<open>
  Claim C1 as stated fails where the maximum exceeds the number of visible cells: with
  three learned words in the set and two cells on the page, none of them marked, the
  maximum is 3 and the published learned count is 2.
\<close>

theorem recompute_learned_counterexample:
  "getSet three_learned = Inr [JStr ''Baum'', JStr ''Haus'', JStr ''Tisch''] \<and>
   flagged_count three_learned = 0 \<and>
   length (documentCells three_learned) = 2 \<and>
   published_learned (snd (recalculateAndUpdateUI three_learned)) = Some 2 \<and>
   published_learned (snd (recalculateAndUpdateUI three_learned)) \<noteq>
     Some (max (flagged_count three_learned) (length [JStr ''Baum'', JStr ''Haus'', JStr ''Tisch'']))"
proof -
  have w: "progressBar three_learned \<noteq> None" "progressFill three_learned \<noteq> None"
    "progressText three_learned \<noteq> None" "length (documentCells three_learned) = 2"
    by (simp_all add: three_learned_def fresh_manager_def)
  have "published_learned (snd (recalculateAndUpdateUI three_learned)) = Some 2"
    by (simp add: recalculateAndUpdateUI_def computeTotals_ok [OF getSet_three_learned]
        andThen_def published_learned_def updateProgressUI_def Let_def w flagged_three_learned)
  then show ?thesis
    by (simp add: getSet_three_learned flagged_three_learned w)
qed

subsection \<open>The percentage\<close>

lemma percent_23_of_40: "Math_round (js_mul (js_div 23 40) 100) = 57"
  by code_simp

lemma percent_3_of_10: "Math_round (js_mul (js_div 3 10) 100) = 30"
  by code_simp

lemma spec_percent_23_of_40: "spec_percent 23 40 = 58"
  by code_simp

lemma getSet_forty_cells: "getSet forty_cells = Inr []"
  by (simp add: forty_cells_def fresh_manager_def getSet_def inherited_def object_prototype_members_def empty_progress_def)

lemma flagged_forty_cells: "flagged_count forty_cells = 23"
  unfolding forty_cells_def fresh_manager_def flagged_count_def page_cells_def
  by code_simp

lemma total_forty_cells: "length (documentCells forty_cells) = 40"
  by (simp add: forty_cells_def fresh_manager_def)

text \<open>
  Claim C7 at a page of 40 cells with 23 of them learned. The design document asks for
  \<open>round(100 * 23 / 40)\<close>, the rounding of 57.5, which is 58. The code computes
  \<open>Math.round((learned / total) * 100)\<close> in doubles: the quotient \<open>23 / 40\<close> rounds to a
  double just below 0.575, its product with 100 rounds to a double just below 57.5,
  and \<open>Math.round\<close> makes 57 of it.
\<close>

theorem percent_of_23_in_40:
  "flagged_count forty_cells = 23 \<and> length (documentCells forty_cells) = 40 \<and>
   getSet forty_cells = Inr [] \<and>
   progressText (snd (recalculateAndUpdateUI forty_cells)) = Some (23, 40, 57) \<and>
   spec_percent 23 40 = 58"
proof -
  have w: "progressBar forty_cells \<noteq> None" "progressFill forty_cells \<noteq> None"
    "progressText forty_cells \<noteq> None"
    by (simp_all add: forty_cells_def fresh_manager_def)
  have "progressText (snd (recalculateAndUpdateUI forty_cells)) = Some (23, 40, 57)"
    by (simp add: recalculateAndUpdateUI_def computeTotals_ok [OF getSet_forty_cells]
        andThen_def updateProgressUI_def Let_def w flagged_forty_cells total_forty_cells
        percent_23_of_40)
  then show ?thesis
    by (simp add: flagged_forty_cells total_forty_cells getSet_forty_cells spec_percent_23_of_40)
qed

text \<open>
  The two examples of the design document hold: no visible cell gives 0 percent and no
  division, and 3 learned of 10 gives 30 percent.
\<close>

lemma updateProgressUI_no_items:
  assumes "progressBar m \<noteq> None" "progressFill m \<noteq> None" "progressText m \<noteq> None"
    and "totalWords m = 0"
  shows "progressText (updateProgressUI m) = Some (0, 0, 0)"
  by (simp add: assms updateProgressUI_def Let_def)

lemma updateProgressUI_3_of_10:
  assumes "progressBar m \<noteq> None" "progressFill m \<noteq> None" "progressText m \<noteq> None"
    and "totalWords m = 10" and "learnedCount m = 3"
  shows "progressText (updateProgressUI m) = Some (3, 10, 30)"
  by (simp add: assms updateProgressUI_def Let_def percent_3_of_10)

subsection \<open>Writing the set of a page\<close>

lemma with_pages_pages_of:
  assumes "pages_of p = Some ps"
  shows "pages_of (with_pages p (JObj ps')) = Some ps'"
proof -
  from pages_of_SomeD [OF assms] obtain kvs where "p = JObj kvs" by blast
  then show ?thesis by (simp add: pages_of_def update_conv')
qed

lemma js_get_pages:
  assumes "pages_of p = Some ps"
  shows "js_get p ''pages'' = Inr (JObj ps)"
proof -
  from pages_of_SomeD [OF assms] obtain kvs
    where "p = JObj kvs" "map_of kvs ''pages'' = Some (JObj ps)" by blast
  then show ?thesis by simp
qed

lemma js_sort_strings:
  "list_all is_string s \<Longrightarrow> js_sort s = Inr (map JStr (sort (strings_of s)))"
  by (simp add: js_sort_def strings_of_def)

lemma setSet_document:
  assumes "pages_of (progress m) = Some ps" and "list_all is_string s"
    and "PAGE_ID m \<noteq> ''__proto__'' \<or> map_of ps (PAGE_ID m) \<noteq> None"
  shows "setSet s m =
     (Normal, m\<lparr>progress := with_pages (progress m)
        (JObj (AList.update (PAGE_ID m) (JArr (map JStr (sort (strings_of s)))) ps))\<rparr>)"
  using assms(3)
  by (auto simp: setSet_def js_get_pages [OF assms(1)] js_sort_strings [OF assms(2)])

lemma fold_set_add_append:
  "list_all is_primitive xs \<Longrightarrow> distinct (acc @ xs) \<Longrightarrow> fold set_add xs acc = acc @ xs"
proof (induction xs arbitrary: acc)
  case Nil
  then show ?case by simp
next
  case (Cons x xs)
  from Cons.prems have x: "is_primitive x" "x \<notin> set acc" by auto
  then have "set_add x acc = acc @ [x]" by (simp add: set_add_def set_has_primitive)
  moreover from Cons.prems have "list_all is_primitive xs" "distinct ((acc @ [x]) @ xs)" by auto
  ultimately show ?case using Cons.IH [of "acc @ [x]"] by simp
qed

lemma map_JStr_strings: "list_all is_string (map JStr zs)"
  by (induction zs) auto

lemma strings_of_map_JStr: "strings_of (map JStr zs) = zs"
  by (induction zs) (auto simp: strings_of_def)

lemma js_string_JStr: "is_string x \<Longrightarrow> JStr (the (js_string x)) = x"
  by (cases x) auto

lemma map_JStr_strings_of: "list_all is_string s \<Longrightarrow> map JStr (strings_of s) = s"
  by (induction s) (auto simp: strings_of_def js_string_JStr)

lemma distinct_map_JStr: "distinct (map JStr zs) = distinct zs"
  by (simp add: distinct_map inj_on_def)

lemma distinct_strings_of:
  assumes "list_all is_string s"
  shows "distinct (strings_of s) = distinct s"
proof -
  have "distinct s = distinct (map JStr (strings_of s))"
    by (simp add: map_JStr_strings_of [OF assms])
  then show ?thesis by (simp add: distinct_map_JStr)
qed

lemma set_sorted_strings:
  assumes "list_all is_string s"
  shows "set (map JStr (sort (strings_of s))) = set s"
proof -
  have "set (map JStr (sort (strings_of s))) = set (map JStr (strings_of s))" by simp
  then show ?thesis by (simp add: map_JStr_strings_of [OF assms])
qed

lemma canonical_sorted_strings:
  assumes "list_all is_string s" and "distinct s"
  shows "canonical_array (JArr (map JStr (sort (strings_of s))))"
  using assms by (simp add: map_JStr_strings strings_of_map_JStr distinct_strings_of)

lemma list_all_update:
  "list_all (\<lambda>kv. P (snd kv)) ps \<Longrightarrow> P v \<Longrightarrow> list_all (\<lambda>kv. P (snd kv)) (AList.update k v ps)"
  by (induction ps) auto

lemma canonical_is_string_array: "canonical_array v \<Longrightarrow> string_array v"
  by (cases v) auto

lemma canonical_is_document: "canonical_document p \<Longrightarrow> progress_document p"
  by (auto simp: canonical_document_def progress_document_def list_all_iff
      canonical_is_string_array split: option.splits)

lemma getSet_of_entry:
  assumes "pages_of (progress m) = Some ps" and "map_of ps (PAGE_ID m) = Some (JArr ys)"
    and "list_all is_string ys" and "distinct ys"
  shows "getSet m = Inr ys"
proof -
  from assms(3) have "list_all is_primitive ys" by (rule strings_primitive)
  then have "fold set_add ys [] = ys" using fold_set_add_append [of ys "[]"] assms(4) by simp
  then show ?thesis by (simp add: getSet_entry [OF assms(1)] assms(2))
qed

subsection \<open>The click on a word cell\<close>

lemma set_delete_set: "is_primitive w \<Longrightarrow> set (set_delete w s) = set s - {w}"
  by (auto simp: set_delete_def same_value_zero_def)

lemma set_delete_strings: "list_all is_string s \<Longrightarrow> list_all is_string (set_delete w s)"
  by (induction s) (auto simp: set_delete_def)

lemma set_delete_distinct: "distinct s \<Longrightarrow> distinct (set_delete w s)"
  by (simp add: set_delete_def)

lemma set_add_set: "is_primitive w \<Longrightarrow> set (set_add w s) = insert w (set s)"
  by (auto simp: set_add_def set_has_primitive)

lemma set_add_strings: "is_string w \<Longrightarrow> list_all is_string s \<Longrightarrow> list_all is_string (set_add w s)"
  by (simp add: set_add_def)

lemma set_add_distinct: "is_primitive w \<Longrightarrow> distinct s \<Longrightarrow> distinct (set_add w s)"
  by (simp add: set_add_def set_has_primitive)

lemma fold_set_add_strings:
  "list_all is_string xs \<Longrightarrow> list_all is_string acc \<Longrightarrow> list_all is_string (fold set_add xs acc)"
  by (induction xs arbitrary: acc) (auto simp: set_add_strings)

lemma getSet_strings:
  assumes "progress_document (progress m)" and "getSet m = Inr s"
  shows "list_all is_string s \<and> distinct s"
proof -
  from progress_documentD [OF assms(1)] obtain ps where ps: "pages_of (progress m) = Some ps"
    and all: "list_all (\<lambda>kv. string_array (snd kv)) ps"
    by blast
  show ?thesis
  proof (cases "map_of ps (PAGE_ID m)")
    case None
    show ?thesis
    proof (cases "plain_key (PAGE_ID m)")
      case True
      with None assms(2) show ?thesis
        by (simp add: getSet_document [OF ps disjI1 [OF True]])
    next
      case False
      with getSet_inherited [OF ps None] assms(2) show ?thesis by simp
    qed
  next
    case (Some v)
    then have own: "plain_key (PAGE_ID m) \<or> map_of ps (PAGE_ID m) \<noteq> None" by simp
    from all Some have "string_array v" by (rule string_array_entry)
    then obtain xs where v: "v = JArr xs" and xs: "list_all is_string xs"
      using string_arrayD by blast
    from Some v assms(2) have s: "s = fold set_add xs []"
      by (simp add: getSet_document [OF ps own])
    from xs have "list_all is_primitive xs" by (rule strings_primitive)
    then have "distinct (fold set_add xs [])" using fold_set_add_distinct [of xs "[]"] by simp
    moreover have "list_all is_string (fold set_add xs [])"
      using fold_set_add_strings [OF xs, of "[]"] by simp
    ultimately show ?thesis by (simp add: s)
  qed
qed

lemma getSet_own_or_plain:
  assumes "pages_of (progress m) = Some ps" and "getSet m = Inr s"
  shows "PAGE_ID m \<noteq> ''__proto__'' \<or> map_of ps (PAGE_ID m) \<noteq> None"
proof (rule ccontr)
  assume "\<not> (PAGE_ID m \<noteq> ''__proto__'' \<or> map_of ps (PAGE_ID m) \<noteq> None)"
  then have k: "PAGE_ID m = ''__proto__''" and none: "map_of ps (PAGE_ID m) = None" by simp_all
  from k have "\<not> plain_key (PAGE_ID m)"
    by (simp add: plain_key_def object_prototype_members_def)
  from getSet_inherited [OF assms(1) none this] assms(2) show False by simp
qed

lemma same_model_refl: "same_model m m"
  by (simp add: same_model_def)

lemma same_model_trans: "same_model a b \<Longrightarrow> same_model b c \<Longrightarrow> same_model a c"
  by (simp add: same_model_def)

lemma same_model_getSet: "same_model m m' \<Longrightarrow> getSet m' = getSet m"
  by (simp add: same_model_def getSet_def cong: sum.case_cong)

lemma saveProgressToDB_same:
  "\<exists>m'. saveProgressToDB m = (Normal, m') \<and> same_model m m'"
proof (cases "dbOpens (db m) \<and> dbWrites (db m)")
  case True
  then show ?thesis by (simp add: saveProgressToDB_succeeds same_model_def)
next
  case False
  then have "saveProgressToDB m = (Normal, m\<lparr>statusEl := SaveError\<rparr>)"
    using saveProgressToDB_open_fails saveProgressToDB_put_fails by blast
  then show ?thesis by (simp add: same_model_def)
qed

lemma hideRow_same: "same_model m (hideRow td m)"
  by (simp add: hideRow_def same_model_def)

lemma fold_hideRow_same: "same_model m (fold hideRow tds m)"
proof (induction tds arbitrary: m)
  case Nil
  show ?case by (simp add: same_model_refl)
next
  case (Cons td tds)
  have "same_model (hideRow td m) (fold hideRow tds (hideRow td m))" by (rule Cons.IH)
  with hideRow_same [of m td] show ?case by (auto intro: same_model_trans)
qed

lemma applyHide_same: "same_model m (applyHide m)"
  using fold_hideRow_same [of m "wordCells m"]
  by (simp add: applyHide_def updateHideButton_def same_model_def)

lemma updateProgressUI_same: "same_model m (updateProgressUI m)"
  by (simp add: updateProgressUI_def same_model_def Let_def)

lemma recalculateAndUpdateUI_same:
  assumes "getSet m = Inr s"
  shows "\<exists>m'. recalculateAndUpdateUI m = (Normal, m') \<and> same_model m m'"
proof -
  let ?m1 = "m\<lparr>wordCells := documentCells m, totalWords := length (documentCells m),
                learnedCount := max (flagged_count m) (length s)\<rparr>"
  have "recalculateAndUpdateUI m = (Normal, updateProgressUI ?m1)"
    by (simp add: recalculateAndUpdateUI_def computeTotals_ok [OF assms] andThen_def)
  moreover have "same_model m ?m1" by (simp add: same_model_def)
  ultimately show ?thesis
    using updateProgressUI_same [of ?m1] by (auto intro: same_model_trans)
qed

lemma wordCellClick_effect:
  assumes doc: "progress_document (progress m)" and s: "getSet m = Inr s"
  shows "\<exists>m' s'. wordCellClick td m = (Normal, m') \<and> getSet m' = Inr s' \<and>
           set s' = (if JStr (js_trim (textContent (cells m td))) \<in> set s
                     then set s - {JStr (js_trim (textContent (cells m td)))}
                     else insert (JStr (js_trim (textContent (cells m td)))) (set s)) \<and>
           distinct s' \<and>
           cells m' = (cells m)(td := (cells m td)
              \<lparr>learned := (JStr (js_trim (textContent (cells m td))) \<notin> set s)\<rparr>) \<and>
           PAGE_ID m' = PAGE_ID m \<and> documentCells m' = documentCells m \<and>
           progress_document (progress m') \<and>
           (canonical_document (progress m) \<longrightarrow> canonical_document (progress m'))"
proof -
  define w where "w = JStr (js_trim (textContent (cells m td)))"
  define s1 where "s1 = (if w \<in> set s then set_delete w s else set_add w s)"
  define m1 where "m1 = m\<lparr>cells := (cells m)(td := (cells m td)\<lparr>learned := (w \<notin> set s)\<rparr>)\<rparr>"
  define ys where "ys = map JStr (sort (strings_of s1))"
  have wp: "is_primitive w" "is_string w" by (simp_all add: w_def)
  from getSet_strings [OF doc s] have ss: "list_all is_string s" "distinct s" by simp_all
  have s1: "list_all is_string s1" "distinct s1"
    "set s1 = (if w \<in> set s then set s - {w} else insert w (set s))"
    using ss wp
    by (simp_all add: s1_def set_delete_strings set_add_strings set_delete_distinct
        set_add_distinct set_delete_set set_add_set)
  from progress_documentD [OF doc] obtain ps where ps: "pages_of (progress m) = Some ps"
    and all: "list_all (\<lambda>kv. string_array (snd kv)) ps"
    by blast
  define m2 where "m2 = m1\<lparr>progress := with_pages (progress m1)
        (JObj (AList.update (PAGE_ID m1) (JArr ys) ps))\<rparr>"
  have click: "wordCellClick td m =
      andThen (setSet s1 m1) (\<lambda>m2. andThen (saveProgressToDB m2)
        (\<lambda>m3. recalculateAndUpdateUI (applyHide m3)))"
    by (simp add: wordCellClick_def s Let_def set_has_primitive s1_def m1_def w_def)
  have ps1: "pages_of (progress m1) = Some ps" by (simp add: m1_def ps)
  from getSet_own_or_plain [OF ps s]
  have own: "PAGE_ID m1 \<noteq> ''__proto__'' \<or> map_of ps (PAGE_ID m1) \<noteq> None"
    by (simp add: m1_def)
  have set1: "setSet s1 m1 = (Normal, m2)"
    by (simp add: setSet_document [OF ps1 s1(1) own] m2_def ys_def)
  have ps2: "pages_of (progress m2) = Some (AList.update (PAGE_ID m2) (JArr ys) ps)"
    by (simp add: m2_def with_pages_pages_of [OF ps1])
  have ys1: "list_all is_string ys" by (simp add: ys_def map_JStr_strings)
  have ys2: "distinct ys"
    using s1(2) by (simp add: ys_def distinct_map_JStr distinct_strings_of [OF s1(1)])
  have ys3: "set ys = set s1" unfolding ys_def by (rule set_sorted_strings [OF s1(1)])
  have ys4: "canonical_array (JArr ys)"
    unfolding ys_def by (rule canonical_sorted_strings [OF s1(1) s1(2)])
  have get2: "getSet m2 = Inr ys"
    by (rule getSet_of_entry [OF ps2 _ ys1 ys2]) (simp add: update_conv')
  from saveProgressToDB_same [of m2] obtain m3
    where m3: "saveProgressToDB m2 = (Normal, m3)" "same_model m2 m3" by blast
  have m4: "same_model m2 (applyHide m3)"
    using m3(2) applyHide_same [of m3] by (rule same_model_trans)
  then have "getSet (applyHide m3) = Inr ys" by (simp add: same_model_getSet get2)
  from recalculateAndUpdateUI_same [OF this] obtain m'
    where m': "recalculateAndUpdateUI (applyHide m3) = (Normal, m')" "same_model (applyHide m3) m'"
    by blast
  from m4 m'(2) have same: "same_model m2 m'" by (rule same_model_trans)
  have run: "wordCellClick td m = (Normal, m')"
    by (simp add: click set1 m3(1) m'(1) andThen_def)
  have "string_array (JArr ys)" using ys4 by (rule canonical_is_string_array)
  with all have "list_all (\<lambda>kv. string_array (snd kv)) (AList.update (PAGE_ID m2) (JArr ys) ps)"
    by (rule list_all_update [where P = string_array])
  then have doc2: "progress_document (progress m2)"
    by (simp add: progress_document_def ps2)
  have can2: "canonical_document (progress m2)" if c: "canonical_document (progress m)"
  proof -
    from c have "list_all (\<lambda>kv. canonical_array (snd kv)) ps"
      by (simp add: canonical_document_def ps)
    then have "list_all (\<lambda>kv. canonical_array (snd kv)) (AList.update (PAGE_ID m2) (JArr ys) ps)"
      using ys4 by (rule list_all_update [where P = canonical_array])
    then show ?thesis by (simp add: canonical_document_def ps2)
  qed
  from same have eqs: "progress m' = progress m2" "cells m' = cells m2" "PAGE_ID m' = PAGE_ID m2"
    "documentCells m' = documentCells m2"
    by (simp_all add: same_model_def)
  have c1: "getSet m' = Inr ys" using same get2 by (simp add: same_model_getSet)
  have c2: "set ys = (if w \<in> set s then set s - {w} else insert w (set s))"
    using ys3 s1(3) by simp
  have c3: "cells m' = (cells m)(td := (cells m td)\<lparr>learned := (w \<notin> set s)\<rparr>)"
    by (simp add: eqs m2_def m1_def)
  have c4: "PAGE_ID m' = PAGE_ID m" "documentCells m' = documentCells m"
    by (simp_all add: eqs m2_def m1_def)
  have c5: "progress_document (progress m')" using doc2 by (simp add: eqs)
  have c6: "canonical_document (progress m) \<longrightarrow> canonical_document (progress m')"
    using can2 by (simp add: eqs)
  from run c1 c2 ys2 c3 c4 c5 c6 show ?thesis
    unfolding w_def by blast
qed



lemma click_step:
  assumes doc: "progress_document (progress m)" and s: "getSet m = Inr s"
  shows "\<exists>m' s'. wordCellClick td m = (Normal, m') \<and> getSet m' = Inr s' \<and>
           set s' = (if item_id m td \<in> set s then set s - {item_id m td}
                     else insert (item_id m td) (set s)) \<and>
           distinct s' \<and>
           cells m' = (cells m)(td := (cells m td)\<lparr>learned := (item_id m td \<notin> set s)\<rparr>) \<and>
           PAGE_ID m' = PAGE_ID m \<and> documentCells m' = documentCells m \<and>
           progress_document (progress m') \<and>
           (canonical_document (progress m) \<longrightarrow> canonical_document (progress m'))"
  unfolding item_id_def by (rule wordCellClick_effect [OF doc s])









subsection \<open>What leaves the document alone\<close>

lemma getSet_cong: "progress m' = progress m \<Longrightarrow> PAGE_ID m' = PAGE_ID m \<Longrightarrow> getSet m' = getSet m"
  by (simp add: getSet_def cong: sum.case_cong)

lemma computeTotals_progress: "progress (snd (computeTotals m)) = progress m"
  by (cases "getSet m") (simp_all add: computeTotals_throws computeTotals_ok)

lemma recalculateAndUpdateUI_progress: "progress (snd (recalculateAndUpdateUI m)) = progress m"
proof (cases "getSet m")
  case (Inl e)
  then show ?thesis
    by (simp add: recalculateAndUpdateUI_def computeTotals_throws andThen_def)
next
  case (Inr s)
  from recalculateAndUpdateUI_same [OF this] show ?thesis by (auto simp: same_model_def)
qed

lemma fold_markCell_frame:
  "progress (fold (markCell s) tds m) = progress m \<and> PAGE_ID (fold (markCell s) tds m) = PAGE_ID m"
  by (induction tds arbitrary: m) (simp_all add: markCell_def)

lemma applyHide_frame: "progress (applyHide m) = progress m \<and> PAGE_ID (applyHide m) = PAGE_ID m"
  using applyHide_same [of m] by (simp add: same_model_def)

lemma applyMarks_progress: "progress (snd (applyMarks m)) = progress m"
  by (cases "getSet m")
     (simp_all add: applyMarks_def recalculateAndUpdateUI_progress applyHide_frame fold_markCell_frame)

lemma applyMarks_throws: "getSet m = Inl e \<Longrightarrow> applyMarks m = (Throw e, m)"
  by (simp add: applyMarks_def)

lemma applyMarks_normal:
  assumes "getSet m = Inr s"
  shows "fst (applyMarks m) = Normal"
proof -
  let ?m1 = "applyHide (fold (markCell s) (wordCells m) m)"
  have "getSet ?m1 = getSet m"
    by (rule getSet_cong) (simp_all add: applyHide_frame fold_markCell_frame)
  with assms have "getSet ?m1 = Inr s" by simp
  from recalculateAndUpdateUI_same [OF this] show ?thesis
    by (auto simp: applyMarks_def assms)
qed

lemma saveProgressToDB_progress: "progress (snd (saveProgressToDB m)) = progress m"
  using saveProgressToDB_same [of m] by (auto simp: same_model_def)

subsection \<open>Loading\<close>

lemma loadFromFile_progress:
  assumes "fileHandle m = Some h" and "fileText h = Inr txt"
  shows "progress (snd (loadFromFile JSON_parse m)) = loadedProgress (JSON_parse txt)"
  by (simp add: loadFromFile_def assms applyMarks_progress)

lemma loadedProgress_bare:
  "map_of kvs ''pages'' = None \<Longrightarrow>
   loadedProgress (Inr (JObj kvs)) = JObj [(''pages'', JObj kvs)]"
  by (simp add: loadedProgress_def inherited_pages)




text \<open>
  A file that parses to \<open>{ "pages": { "verbs": 5 } }\<close> is installed as well, and then
  \<open>applyMarks\<close>, which is called after the \<open>try\<close> block, throws out of \<open>loadFromFile\<close>:
  \<open>new Set(5)\<close> is a TypeError.
\<close>

lemma loadFromFile_throws_example:
  "fst (loadFromFile (parses_to (JObj [(''pages'', JObj [(''verbs'', JNum 5)])])) manager_with_file)
     = Throw TypeError"
proof -
  let ?h = "\<lparr>fileText = Inr ''progress.json'', queryPermission = Inr Granted,
           requestPermission = Inr Granted\<rparr>"
  let ?v = "JObj [(''pages'', JObj [(''verbs'', JNum 5)])]"
  have h: "fileHandle manager_with_file = Some ?h" "fileText ?h = Inr ''progress.json''"
    by (simp_all add: manager_with_file_def fresh_manager_def)
  have p: "loadedProgress (parses_to ?v ''progress.json'') = ?v"
    by (simp add: loadedProgress_def parses_to_def)
  have g: "getSet (manager_with_file\<lparr>progress := ?v\<rparr>) = Inl TypeError"
    by (simp add: getSet_def inherited_def object_prototype_members_def manager_with_file_def fresh_manager_def)
  show ?thesis
    by (simp add: loadFromFile_def h p applyMarks_throws [OF g])
qed

subsection \<open>Booting from the database\<close>

lemma boot_installs_record:
  assumes "dbOpens (db m)" and "dbReads (db m)" and "dbRecord (db m) = Some v" and "truthy v"
  shows "progress (snd (boot m)) = v"
proof (cases "getSet (m\<lparr>progress := v\<rparr>)")
  case (Inl e)
  then have g: "getSet (m\<lparr>progress := v, statusEl := SavedAutomatically\<rparr>) = Inl e"
    by (simp add: getSet_def cong: sum.case_cong)
  show ?thesis
    by (simp add: boot_def idbOpen_def idbGet_def assms andThen_def tryCatch_def bootFallback_def
        applyMarks_throws [OF Inl] applyMarks_throws [OF g])
next
  case (Inr s)
  from applyMarks_normal [OF Inr] applyMarks_progress [of "m\<lparr>progress := v\<rparr>"]
  show ?thesis
    by (cases "applyMarks (m\<lparr>progress := v\<rparr>)")
       (simp add: boot_def idbOpen_def idbGet_def assms andThen_def tryCatch_def)
qed

text \<open>
  Claim C3 at a database whose record is the bare mapping \<open>{ "verbs": ["Haus"] }\<close>.
  \<open>boot\<close> assigns the record to \<open>this.progress\<close> as it is. \<open>applyMarks\<close> then reads
  \<open>this.progress.pages[this.PAGE_ID]\<close> with \<open>pages\<close> undefined and throws; the \<open>catch\<close> block
  of \<open>boot\<close> calls \<open>applyMarks\<close> again, which throws again, so \<open>boot\<close> ends with a
  TypeError and the bare mapping installed. \<open>loadFromFile\<close> wraps the same value into
  \<open>{ "pages": { "verbs": ["Haus"] } }\<close>.
\<close>

theorem boot_bare_mapping:
  "fst (boot (manager_with_record (JObj [(''verbs'', JArr [JStr ''Haus''])]))) = Throw TypeError \<and>
   progress (snd (boot (manager_with_record (JObj [(''verbs'', JArr [JStr ''Haus''])]))))
     = JObj [(''verbs'', JArr [JStr ''Haus''])] \<and>
   loadedProgress (Inr (JObj [(''verbs'', JArr [JStr ''Haus''])]))
     = JObj [(''pages'', JObj [(''verbs'', JArr [JStr ''Haus''])])]"
proof -
  let ?v = "JObj [(''verbs'', JArr [JStr ''Haus''])]"
  let ?m = "manager_with_record ?v"
  have d: "dbOpens (db ?m)" "dbReads (db ?m)" "dbRecord (db ?m) = Some ?v"
    by (simp_all add: manager_with_record_def working_db_def)
  have g1: "getSet (?m\<lparr>progress := ?v\<rparr>) = Inl TypeError"
    by (simp add: getSet_def inherited_def object_prototype_members_def)
  have g2: "getSet (?m\<lparr>progress := ?v, statusEl := SavedAutomatically\<rparr>) = Inl TypeError"
    by (simp add: getSet_def inherited_def object_prototype_members_def)
  have "boot ?m = (Throw TypeError, ?m\<lparr>progress := ?v, statusEl := SavedAutomatically\<rparr>)"
    by (simp add: boot_def idbOpen_def idbGet_def d andThen_def tryCatch_def bootFallback_def
        applyMarks_throws [OF g1] applyMarks_throws [OF g2])
  then show ?thesis by (simp add: loadedProgress_bare)
qed

subsection \<open>The canonical form of the arrays\<close>

lemma setSet_pages:
  assumes "progress_document (progress m)" and "list_all is_string s"
    and "PAGE_ID m \<noteq> ''__proto__''"
  shows "\<exists>m' ps. setSet s m = (Normal, m') \<and> pages_of (progress m) = Some ps \<and>
           pages_of (progress m') =
             Some (AList.update (PAGE_ID m) (JArr (map JStr (sort (strings_of s)))) ps)"
proof -
  from progress_documentD [OF assms(1)] obtain ps where ps: "pages_of (progress m) = Some ps"
    by blast
  from assms(3) have own: "PAGE_ID m \<noteq> ''__proto__'' \<or> map_of ps (PAGE_ID m) \<noteq> None"
    by simp
  show ?thesis
    by (simp add: setSet_document [OF ps assms(2) own] ps with_pages_pages_of [OF ps])
qed

lemma canonical_update:
  assumes "canonical_document p" and "pages_of p = Some ps"
    and "pages_of p' = Some (AList.update k v ps)" and "canonical_array v"
  shows "canonical_document p'"
proof -
  from assms(1,2) have "list_all (\<lambda>kv. canonical_array (snd kv)) ps"
    by (simp add: canonical_document_def)
  then have "list_all (\<lambda>kv. canonical_array (snd kv)) (AList.update k v ps)"
    using assms(4) by (rule list_all_update [where P = canonical_array])
  then show ?thesis by (simp add: canonical_document_def assms(3))
qed

lemma wordCellClick_throws: "getSet m = Inl e \<Longrightarrow> wordCellClick td m = (Throw e, m)"
  by (simp add: wordCellClick_def)

lemma wordCellClick_canonical:
  assumes "canonical_document (progress m)"
  shows "canonical_document (progress (snd (wordCellClick td m)))"
proof (cases "getSet m")
  case (Inl e)
  with assms show ?thesis by (simp add: wordCellClick_throws)
next
  case (Inr s)
  from assms have "progress_document (progress m)" by (rule canonical_is_document)
  from click_step [OF this Inr, of td] assms show ?thesis by auto
qed

text \<open>
  Claim C8, as the code has it. On a progress document and a page whose identifier is
  not \<open>__proto__\<close>, \<open>setSet\<close> with a set of strings completes normally and stores for the
  active page an array of strings that is sorted and free of duplicates and has the
  members of the set as its elements; the arrays of the other pages stay as they are,
  so a document in canonical form stays in canonical form. The click listener changes
  the document through \<open>setSet\<close> only and keeps the canonical form as well, and saving,
  marking, hiding and counting leave the document as it is. (What \<open>loadFromFile\<close> and
  \<open>boot\<close> install is not sorted or checked.)
\<close>

theorem setSet_canonical:
  assumes "progress_document (progress m)" and "list_all is_string s" and "distinct s"
    and "PAGE_ID m \<noteq> ''__proto__''"
  shows
    "(\<exists>m'. setSet s m = (Normal, m') \<and>
        canonical_array (JArr (page_items (progress m') (PAGE_ID m))) \<and>
        set (page_items (progress m') (PAGE_ID m)) = set s \<and>
        (\<forall>k. k \<noteq> PAGE_ID m \<longrightarrow> page_items (progress m') k = page_items (progress m) k) \<and>
        (canonical_document (progress m) \<longrightarrow> canonical_document (progress m'))) \<and>
     (canonical_document (progress m) \<longrightarrow>
        canonical_document (progress (snd (wordCellClick td m)))) \<and>
     progress (snd (saveProgressToDB m)) = progress m \<and>
     progress (snd (applyMarks m)) = progress m \<and>
     progress (applyHide m) = progress m \<and>
     progress (snd (recalculateAndUpdateUI m)) = progress m"
proof (intro conjI)
  let ?ys = "map JStr (sort (strings_of s))"
  from setSet_pages [OF assms(1,2,4)] obtain m' ps where
    r: "setSet s m = (Normal, m')" "pages_of (progress m) = Some ps"
       "pages_of (progress m') = Some (AList.update (PAGE_ID m) (JArr ?ys) ps)"
    by blast
  have can: "canonical_array (JArr ?ys)" by (rule canonical_sorted_strings [OF assms(2,3)])
  have items: "page_items (progress m') (PAGE_ID m) = ?ys"
    by (simp add: page_items_def r(3) update_conv')
  have c1: "canonical_array (JArr (page_items (progress m') (PAGE_ID m)))"
    using can by (simp only: items)
  have c2: "set (page_items (progress m') (PAGE_ID m)) = set s"
    using set_sorted_strings [OF assms(2)] by (simp only: items)
  have c3: "\<forall>k. k \<noteq> PAGE_ID m \<longrightarrow> page_items (progress m') k = page_items (progress m) k"
    by (simp add: page_items_def r(2) r(3) update_conv')
  have c4: "canonical_document (progress m) \<longrightarrow> canonical_document (progress m')"
    using canonical_update [OF _ r(2) r(3) can] by blast
  from r(1) c1 c2 c3 c4
  show "\<exists>m'. setSet s m = (Normal, m') \<and>
        canonical_array (JArr (page_items (progress m') (PAGE_ID m))) \<and>
        set (page_items (progress m') (PAGE_ID m)) = set s \<and>
        (\<forall>k. k \<noteq> PAGE_ID m \<longrightarrow> page_items (progress m') k = page_items (progress m) k) \<and>
        (canonical_document (progress m) \<longrightarrow> canonical_document (progress m'))"
    by blast
next
  show "canonical_document (progress m) \<longrightarrow>
        canonical_document (progress (snd (wordCellClick td m)))"
    using wordCellClick_canonical by blast
next
  show "progress (snd (saveProgressToDB m)) = progress m" by (rule saveProgressToDB_progress)
next
  show "progress (snd (applyMarks m)) = progress m" by (rule applyMarks_progress)
next
  show "progress (applyHide m) = progress m" by (simp add: applyHide_frame)
next
  show "progress (snd (recalculateAndUpdateUI m)) = progress m"
    by (rule recalculateAndUpdateUI_progress)
qed

theorem setSet_canonical_witness:
  "progress_document (progress three_learned) \<and>
   list_all is_string [JStr ''Tisch'', JStr ''Auto''] \<and> distinct [JStr ''Tisch'', JStr ''Auto''] \<and>
   PAGE_ID three_learned \<noteq> ''__proto__'' \<and>
   canonical_document (progress three_learned) \<and>
   (\<exists>m'. setSet [JStr ''Tisch'', JStr ''Auto''] three_learned = (Normal, m') \<and>
      page_items (progress m') ''verbs'' = [JStr ''Auto'', JStr ''Tisch''] \<and>
      canonical_document (progress m')) \<and>
   canonical_document (progress (snd (wordCellClick 0 three_learned)))"
proof -
  have h: "progress_document (progress three_learned)"
    "list_all is_string [JStr ''Tisch'', JStr ''Auto'']" "distinct [JStr ''Tisch'', JStr ''Auto'']"
    "PAGE_ID three_learned \<noteq> ''__proto__''"
    by (simp_all add: three_learned_def fresh_manager_def progress_document_def pages_of_def)
  have c: "canonical_document (progress three_learned)"
    by (simp add: three_learned_def canonical_document_def pages_of_def strings_of_def)
  have e: "setSet [JStr ''Tisch'', JStr ''Auto''] three_learned =
      (Normal, three_learned\<lparr>progress :=
         JObj [(''pages'', JObj [(''verbs'', JArr [JStr ''Auto'', JStr ''Tisch''])])]\<rparr>)"
    by (simp add: setSet_def three_learned_def fresh_manager_def js_sort_def)
  from setSet_canonical [OF h, of 0] c e
  show ?thesis
    by (simp add: h page_items_def pages_of_def)
qed

text \<open>
  Claim C8 as stated fails for \<open>loadFromFile\<close>: the document in memory is in canonical
  form, the file parses to a document whose array for \<open>verbs\<close> is unsorted and holds
  \<open>Haus\<close> twice, the load completes normally and the document it leaves is that one.
\<close>

theorem load_not_canonical_counterexample:
  "canonical_document (progress manager_with_file) \<and>
   fst (loadFromFile
          (parses_to (JObj [(''pages'', JObj [(''verbs'', JArr [JStr ''Haus'', JStr ''Baum'', JStr ''Haus''])])]))
          manager_with_file) = Normal \<and>
   progress (snd (loadFromFile
          (parses_to (JObj [(''pages'', JObj [(''verbs'', JArr [JStr ''Haus'', JStr ''Baum'', JStr ''Haus''])])]))
          manager_with_file))
     = JObj [(''pages'', JObj [(''verbs'', JArr [JStr ''Haus'', JStr ''Baum'', JStr ''Haus''])])] \<and>
   \<not> canonical_document
        (JObj [(''pages'', JObj [(''verbs'', JArr [JStr ''Haus'', JStr ''Baum'', JStr ''Haus''])])])"
proof -
  let ?h = "\<lparr>fileText = Inr ''progress.json'', queryPermission = Inr Granted,
           requestPermission = Inr Granted\<rparr>"
  let ?v = "JObj [(''pages'', JObj [(''verbs'', JArr [JStr ''Haus'', JStr ''Baum'', JStr ''Haus''])])]"
  have h: "fileHandle manager_with_file = Some ?h" "fileText ?h = Inr ''progress.json''"
    by (simp_all add: manager_with_file_def fresh_manager_def)
  have p: "loadedProgress (parses_to ?v ''progress.json'') = ?v"
    by (simp add: loadedProgress_def parses_to_def)
  have d: "progress_document (progress (manager_with_file\<lparr>progress := ?v\<rparr>))"
    by (simp add: progress_document_def pages_of_def)
  have k: "plain_key (PAGE_ID (manager_with_file\<lparr>progress := ?v\<rparr>))"
    by (simp add: manager_with_file_def fresh_manager_def plain_key_def object_prototype_members_def)
  from getSet_on_document [OF d k] obtain s where g: "getSet (manager_with_file\<lparr>progress := ?v\<rparr>) = Inr s"
    by blast
  have "fst (loadFromFile (parses_to ?v) manager_with_file) = Normal"
    by (simp add: loadFromFile_def h p applyMarks_normal [OF g])
  moreover have "progress (snd (loadFromFile (parses_to ?v) manager_with_file)) = ?v"
    by (simp add: loadFromFile_progress [OF h] p)
  moreover have "canonical_document (progress manager_with_file)"
    by (simp add: manager_with_file_def fresh_manager_def empty_progress_def
        canonical_document_def pages_of_def)
  moreover have "\<not> canonical_document ?v"
    by (simp add: canonical_document_def pages_of_def strings_of_def)
  ultimately show ?thesis by simp
qed

subsection \<open>Binding the cells once\<close>

lemma addWordCellListener_cells:
  "cells (addWordCellListener (Some td) m) a =
     (if a = td \<and> \<not> listenerBound (cells m a)
      then (cells m a)\<lparr>listenerBound := True, clickListeners := Suc (clickListeners (cells m a))\<rparr>
      else cells m a)"
  by (simp add: addWordCellListener_def)

lemma bindCells_Nil: "bindCells [] m = m"
  by (simp add: bindCells_def)

lemma bindCells_Cons: "bindCells (td # tds) m = bindCells tds (addWordCellListener (Some td) m)"
  by (simp add: bindCells_def)

lemma bindCells_append: "bindCells (xs @ ys) m = bindCells ys (bindCells xs m)"
  by (simp add: bindCells_def)

lemma bindCells_cells:
  "cells (bindCells tds m) a =
     (if a \<in> set tds \<and> \<not> listenerBound (cells m a)
      then (cells m a)\<lparr>listenerBound := True, clickListeners := Suc (clickListeners (cells m a))\<rparr>
      else cells m a)"
proof (induction tds arbitrary: m)
  case Nil
  show ?case by (simp add: bindCells_Nil)
next
  case (Cons td tds)
  show ?case
    by (simp add: bindCells_Cons Cons.IH addWordCellListener_cells)
qed

lemma bindAddedNode_bindCells: "bindAddedNode n m = bindCells (subtree_cells n) m"
proof (cases n)
  case TextNode
  then show ?thesis by (simp add: bindCells_Nil)
next
  case (Element c kids)
  then show ?thesis
    by (cases c) (simp_all add: bindCells_def)
qed

lemma fold_bindAddedNode: "fold bindAddedNode ns m = bindCells (concat (map subtree_cells ns)) m"
  by (induction ns arbitrary: m) (simp_all add: bindCells_Nil bindAddedNode_bindCells bindCells_append)

lemma bindMutation_bindCells:
  "bindMutation mu m =
     bindCells (if mutationType mu = ChildList
                then concat (map subtree_cells (addedNodes mu)) else []) m"
  by (simp add: bindMutation_def fold_bindAddedNode bindCells_Nil)

lemma scanned_cells_Cons:
  "scanned_cells (mu # mus) =
     (if mutationType mu = ChildList then concat (map subtree_cells (addedNodes mu)) else [])
       @ scanned_cells mus"
  by (simp add: scanned_cells_def)

lemma fold_bindMutation: "fold bindMutation mutations m = bindCells (scanned_cells mutations) m"
proof (induction mutations arbitrary: m)
  case Nil
  show ?case by (simp add: scanned_cells_def bindCells_Nil)
next
  case (Cons mu mus)
  have "fold bindMutation (mu # mus) m = fold bindMutation mus (bindMutation mu m)" by simp
  also have "\<dots> = bindCells (scanned_cells mus) (bindMutation mu m)" by (rule Cons.IH)
  also have "\<dots> = bindCells (scanned_cells (mu # mus)) m"
    by (simp only: bindMutation_bindCells scanned_cells_Cons bindCells_append)
  finally show ?case .
qed

lemma recalculateAndUpdateUI_cells: "cells (snd (recalculateAndUpdateUI m)) = cells m"
proof (cases "getSet m")
  case (Inl e)
  then show ?thesis
    by (simp add: recalculateAndUpdateUI_def computeTotals_throws andThen_def)
next
  case (Inr s)
  from recalculateAndUpdateUI_same [OF this] show ?thesis by (auto simp: same_model_def)
qed

lemma observerCallback_cells:
  "cells (snd (observerCallback mutations m)) = cells (bindCells (scanned_cells mutations) m)"
  by (simp add: observerCallback_def Let_def fold_bindMutation recalculateAndUpdateUI_cells)

lemma scan_cells:
  "cells (snd (observerCallback mutations m)) a =
     (if a \<in> set (scanned_cells mutations) \<and> \<not> listenerBound (cells m a)
      then (cells m a)\<lparr>listenerBound := True, clickListeners := Suc (clickListeners (cells m a))\<rparr>
      else cells m a)"
  by (simp add: observerCallback_cells bindCells_cells)

lemma scan_again:
  "cells (snd (observerCallback mutations (snd (observerCallback mutations m))))
     = cells (snd (observerCallback mutations m))"
  by (rule ext) (simp add: scan_cells)

lemma rescan_cells:
  "cells (rescan (Suc k) mutations m) = cells (snd (observerCallback mutations m))"
proof (induction k arbitrary: m)
  case 0
  show ?case by simp
next
  case (Suc k)
  have "cells (rescan (Suc (Suc k)) mutations m)
      = cells (rescan (Suc k) mutations (snd (observerCallback mutations m)))"
    by simp
  also have "\<dots> = cells (snd (observerCallback mutations (snd (observerCallback mutations m))))"
    by (rule Suc.IH)
  also have "\<dots> = cells (snd (observerCallback mutations m))" by (rule scan_again)
  finally show ?case .
qed

text \<open>
  Claim C6. A scan (the observer's callback on a list of mutation records) attaches one
  click listener to every cell it reaches whose flag is not set and sets the flag; it
  changes no cell whose flag is set and no cell it does not reach, also when it
  reaches a cell several times. Any number of further scans of the same records
  leaves every cell as the first scan left it. So when the cells reached had no
  listener and no flag, each of them has exactly one listener after any number of
  scans, and the listeners attached are as many as the cells.
\<close>

theorem binding_idempotent:
  "cells (snd (observerCallback mutations m)) a =
     (if a \<in> set (scanned_cells mutations) \<and> \<not> listenerBound (cells m a)
      then (cells m a)\<lparr>listenerBound := True, clickListeners := Suc (clickListeners (cells m a))\<rparr>
      else cells m a) \<and>
   cells (rescan (Suc k) mutations m) = cells (snd (observerCallback mutations m)) \<and>
   ((\<forall>td \<in> set (scanned_cells mutations).
        \<not> listenerBound (cells m td) \<and> clickListeners (cells m td) = 0) \<longrightarrow>
      (\<forall>td \<in> set (scanned_cells mutations).
          listenerBound (cells (rescan (Suc k) mutations m) td) \<and>
          clickListeners (cells (rescan (Suc k) mutations m) td) = 1) \<and>
      (\<Sum>td \<in> set (scanned_cells mutations). clickListeners (cells (rescan (Suc k) mutations m) td))
        = card (set (scanned_cells mutations)))"
proof (intro conjI impI)
  show "cells (snd (observerCallback mutations m)) a =
     (if a \<in> set (scanned_cells mutations) \<and> \<not> listenerBound (cells m a)
      then (cells m a)\<lparr>listenerBound := True, clickListeners := Suc (clickListeners (cells m a))\<rparr>
      else cells m a)"
    by (rule scan_cells)
next
  show "cells (rescan (Suc k) mutations m) = cells (snd (observerCallback mutations m))"
    by (rule rescan_cells)
next
  assume fresh: "\<forall>td \<in> set (scanned_cells mutations).
        \<not> listenerBound (cells m td) \<and> clickListeners (cells m td) = 0"
  then show one: "\<forall>td \<in> set (scanned_cells mutations).
          listenerBound (cells (rescan (Suc k) mutations m) td) \<and>
          clickListeners (cells (rescan (Suc k) mutations m) td) = 1"
    by (simp add: rescan_cells scan_cells del: rescan.simps)
  then show "(\<Sum>td \<in> set (scanned_cells mutations).
        clickListeners (cells (rescan (Suc k) mutations m) td))
        = card (set (scanned_cells mutations))"
    by (simp del: rescan.simps)
qed

lemma row_inserted_cells: "scanned_cells row_inserted = [0, 1, 0]"
  by (simp add: row_inserted_def scanned_cells_def)

theorem binding_idempotent_witness:
  "scanned_cells row_inserted = [0, 1, 0] \<and>
   \<not> listenerBound (cells fresh_manager 0) \<and> clickListeners (cells fresh_manager 0) = 0 \<and>
   \<not> listenerBound (cells fresh_manager 1) \<and> clickListeners (cells fresh_manager 1) = 0 \<and>
   listenerBound (cells (rescan (Suc 2) row_inserted fresh_manager) 0) \<and>
   clickListeners (cells (rescan (Suc 2) row_inserted fresh_manager) 0) = 1 \<and>
   listenerBound (cells (rescan (Suc 2) row_inserted fresh_manager) 1) \<and>
   clickListeners (cells (rescan (Suc 2) row_inserted fresh_manager) 1) = 1"
proof -
  have g: "\<not> listenerBound (cells fresh_manager a) \<and> clickListeners (cells fresh_manager a) = 0"
    for a
    by (simp add: fresh_manager_def page_cells_def)
  from g [of 0] g [of 1]
  have f: "\<not> listenerBound (cells fresh_manager 0)" "clickListeners (cells fresh_manager 0) = 0"
    "\<not> listenerBound (cells fresh_manager 1)" "clickListeners (cells fresh_manager 1) = 0"
    by blast+
  have "\<forall>td \<in> set (scanned_cells row_inserted).
      \<not> listenerBound (cells fresh_manager td) \<and> clickListeners (cells fresh_manager td) = 0"
    using g by blast
  with binding_idempotent [of row_inserted fresh_manager 0 2]
  have "\<forall>td \<in> set (scanned_cells row_inserted).
      listenerBound (cells (rescan (Suc 2) row_inserted fresh_manager) td) \<and>
      clickListeners (cells (rescan (Suc 2) row_inserted fresh_manager) td) = 1"
    by blast
  then have "listenerBound (cells (rescan (Suc 2) row_inserted fresh_manager) 0) \<and>
      clickListeners (cells (rescan (Suc 2) row_inserted fresh_manager) 0) = 1 \<and>
      listenerBound (cells (rescan (Suc 2) row_inserted fresh_manager) 1) \<and>
      clickListeners (cells (rescan (Suc 2) row_inserted fresh_manager) 1) = 1"
    unfolding row_inserted_cells by (simp del: rescan.simps)
  with f row_inserted_cells show ?thesis by blast
qed

lemma setupEventListeners_cells:
  "cells (setupEventListeners m) a =
     (if a \<in> set (wordCells m) \<and> \<not> listenerBound (cells m a)
      then (cells m a)\<lparr>listenerBound := True, clickListeners := Suc (clickListeners (cells m a))\<rparr>
      else cells m a)"
  using bindCells_cells [of "wordCells m" m a] by (simp add: setupEventListeners_def bindCells_def)

end
